theory Spec2Isabelle
  imports Main "HOL-Library.Multiset" "HOL-Library.Sublist"
begin

section \<open>Shut the Box: data model\<close>

text \<open>
  The program \<^verbatim>\<open>shut_the_box.py\<close> simulates the dice game Shut the Box. The numbers
  still on the board are a Python list of integers (\<^verbatim>\<open>Game.numbers\<close>, initially
  \<^verbatim>\<open>[1, ..., 9]\<close>), a roll is an integer, and a solution is a list of integers.
  Python integers are unbounded, so they are \<^typ>\<open>int\<close>.

  Exceptions that the embedded code can raise are values of the type below:
  \<^verbatim>\<open>NotImplementedError\<close> from the abstract base classes, \<^verbatim>\<open>ValueError\<close> from
  \<^verbatim>\<open>list.remove\<close> of an absent element and from \<^verbatim>\<open>min\<close> or \<^verbatim>\<open>max\<close> of an empty
  sequence, \<^verbatim>\<open>IndexError\<close> from indexing or \<^verbatim>\<open>random.choice\<close> on an empty list, and
  \<^verbatim>\<open>NameError\<close> from reading an unbound module-level name.
\<close>

datatype error = NotImplementedError | ValueError | IndexError | NameError

text \<open>
  The precondition under which the properties are stated: the list holds distinct
  integers between 1 and 9 (in any order).
\<close>

definition NumberSet :: "int list \<Rightarrow> bool" where
  "NumberSet numbers \<longleftrightarrow> distinct numbers \<and> (\<forall>n \<in> set numbers. 1 \<le> n \<and> n \<le> 9)"

section \<open>The solution search \<^verbatim>\<open>find_all_solutions\<close>\<close>

text \<open>
  \<^verbatim>\<open>
  def find_all_solutions(numbers, target):
      solutions = []
      def recurse(numbers, target, subsolution):
          if target == 0:
              solutions.append(subsolution)
          if target < 0:
              return
          for index, number in enumerate(numbers):
              recurse(numbers[index + 1 :], target - number, [*subsolution, number])
      recurse(numbers, target, [])
      return solutions
  \<close>
  The closure appends to the enclosing list \<^verbatim>\<open>solutions\<close>; the embedding passes that
  list in and returns it updated. \<open>recurse_for\<close> is the \<^verbatim>\<open>for\<close> loop: its first
  argument is the part of \<^verbatim>\<open>numbers\<close> not yet visited, \<^verbatim>\<open>numbers[index:]\<close>, whose head
  is \<^verbatim>\<open>number\<close> and whose tail is \<^verbatim>\<open>numbers[index + 1 :]\<close>.
\<close>

fun recurse :: "int list \<Rightarrow> int \<Rightarrow> int list \<Rightarrow> int list list \<Rightarrow> int list list"
  and recurse_for :: "int list \<Rightarrow> int \<Rightarrow> int list \<Rightarrow> int list list \<Rightarrow> int list list" where
  "recurse numbers target subsolution solutions =
     (let solutions = (if target = 0 then solutions @ [subsolution] else solutions)
      in if target < 0 then solutions
         else recurse_for numbers target subsolution solutions)"
| "recurse_for [] target subsolution solutions = solutions"
| "recurse_for (number # rest) target subsolution solutions =
     recurse_for rest target subsolution
       (recurse rest (target - number) (subsolution @ [number]) solutions)"

definition find_all_solutions :: "int list \<Rightarrow> int \<Rightarrow> int list list" where
  "find_all_solutions numbers target = recurse numbers target [] []"

section \<open>The greedy strategies\<close>

text \<open>
  \<^verbatim>\<open>xs.remove(x)\<close> deletes the first occurrence of \<^verbatim>\<open>x\<close> and raises
  \<^verbatim>\<open>ValueError\<close> when there is none.
\<close>

definition list_remove :: "'a \<Rightarrow> 'a list \<Rightarrow> error + 'a list" where
  "list_remove x xs = (if x \<in> set xs then Inr (remove1 x xs) else Inl ValueError)"

lemma list_remove_length [termination_simp]:
  "list_remove x xs = Inr ys \<Longrightarrow> length ys < length xs"
  using length_pos_if_in_set [of x xs]
  by (auto simp: list_remove_def length_remove1 split: if_splits)

text \<open>
  \<^verbatim>\<open>
  class LowestFirst(Strategy):
      def choose_numbers(self, numbers, roll):
          if roll == 0:
              return True
          for number in numbers:
              if number > roll:
                  return False
              self.answer.append(number)
              new_nums = numbers[:]
              new_nums.remove(number)
              if LowestFirst.choose_numbers(self, new_nums, roll - number):
                  return True
              self.answer.remove(number)
          return False
  \<close>
  The only state the method touches is the field \<^verbatim>\<open>self.answer\<close>; the embedding takes
  its value before the call as the last argument and returns the method's result paired
  with its value after the call. \<open>LowestFirst_for\<close> is the \<^verbatim>\<open>for\<close> loop; its first
  argument is the part of \<^verbatim>\<open>numbers\<close> still to be visited.
\<close>

function LowestFirst_choose_numbers :: "int list \<Rightarrow> int \<Rightarrow> int list \<Rightarrow> error + (bool \<times> int list)"
  and LowestFirst_for :: "int list \<Rightarrow> int list \<Rightarrow> int \<Rightarrow> int list \<Rightarrow> error + (bool \<times> int list)" where
  "LowestFirst_choose_numbers numbers roll answer =
     (if roll = 0 then Inr (True, answer)
      else LowestFirst_for numbers numbers roll answer)"
| "LowestFirst_for [] numbers roll answer = Inr (False, answer)"
| "LowestFirst_for (number # rest) numbers roll answer =
     (if number > roll then Inr (False, answer)
      else case list_remove number numbers of
             Inl e \<Rightarrow> Inl e
           | Inr new_nums \<Rightarrow>
               (case LowestFirst_choose_numbers new_nums (roll - number) (answer @ [number]) of
                  Inl e \<Rightarrow> Inl e
                | Inr (found, answer1) \<Rightarrow>
                    if found then Inr (True, answer1)
                    else (case list_remove number answer1 of
                            Inl e \<Rightarrow> Inl e
                          | Inr answer2 \<Rightarrow> LowestFirst_for rest numbers roll answer2)))"
  by pat_completeness auto
termination
  by (relation "measures
        [\<lambda>x. case x of Inl (numbers, _, _) \<Rightarrow> length numbers
                      | Inr (_, numbers, _, _) \<Rightarrow> length numbers,
         \<lambda>x. case x of Inl (numbers, _, _) \<Rightarrow> Suc (length numbers)
                      | Inr (todo, _, _, _) \<Rightarrow> length todo]")
     (auto dest: list_remove_length)

text \<open>
  \<^verbatim>\<open>
  class HighestFirst(Strategy):
      def choose_numbers(self, numbers, roll):
          if roll == 0:
              return True
          numbers = sorted(numbers, reverse=True)
          for number in numbers:
              if number > roll:
                  continue
              self.answer.append(number)
              new_nums = numbers[:]
              new_nums.remove(number)
              if HighestFirst.choose_numbers(self, new_nums, roll - number):
                  return True
              self.answer.remove(number)
          return False
  \<close>
  On integers \<^verbatim>\<open>sorted(numbers, reverse=True)\<close> is the ascending sort reversed.
\<close>

function HighestFirst_choose_numbers :: "int list \<Rightarrow> int \<Rightarrow> int list \<Rightarrow> error + (bool \<times> int list)"
  and HighestFirst_for :: "int list \<Rightarrow> int list \<Rightarrow> int \<Rightarrow> int list \<Rightarrow> error + (bool \<times> int list)" where
  "HighestFirst_choose_numbers numbers roll answer =
     (if roll = 0 then Inr (True, answer)
      else let numbers = rev (sort numbers)
           in HighestFirst_for numbers numbers roll answer)"
| "HighestFirst_for [] numbers roll answer = Inr (False, answer)"
| "HighestFirst_for (number # rest) numbers roll answer =
     (if number > roll then HighestFirst_for rest numbers roll answer
      else case list_remove number numbers of
             Inl e \<Rightarrow> Inl e
           | Inr new_nums \<Rightarrow>
               (case HighestFirst_choose_numbers new_nums (roll - number) (answer @ [number]) of
                  Inl e \<Rightarrow> Inl e
                | Inr (found, answer1) \<Rightarrow>
                    if found then Inr (True, answer1)
                    else (case list_remove number answer1 of
                            Inl e \<Rightarrow> Inl e
                          | Inr answer2 \<Rightarrow> HighestFirst_for rest numbers roll answer2)))"
  by pat_completeness auto
termination
  by (relation "measures
        [\<lambda>x. case x of Inl (numbers, _, _) \<Rightarrow> length numbers
                      | Inr (_, numbers, _, _) \<Rightarrow> length numbers,
         \<lambda>x. case x of Inl (numbers, _, _) \<Rightarrow> Suc (length numbers)
                      | Inr (todo, _, _, _) \<Rightarrow> length todo]")
     (auto dest: list_remove_length)

text \<open>
  \<^verbatim>\<open>
  class ExactThenLowest(LowestFirst):
      def choose_numbers(self, numbers, roll):
          if roll in numbers:
              self.answer.append(roll)
              return
          super().choose_numbers(numbers, roll)
  \<close>
  and the same over \<^verbatim>\<open>HighestFirst\<close>. Both return \<^verbatim>\<open>None\<close> on every path, so the
  embedding returns the new value of \<^verbatim>\<open>self.answer\<close> only.
\<close>

definition ExactThenLowest_choose_numbers :: "int list \<Rightarrow> int \<Rightarrow> int list \<Rightarrow> error + int list" where
  "ExactThenLowest_choose_numbers numbers roll answer =
     (if roll \<in> set numbers then Inr (answer @ [roll])
      else case LowestFirst_choose_numbers numbers roll answer of
             Inl e \<Rightarrow> Inl e
           | Inr (found, answer1) \<Rightarrow> Inr answer1)"

definition ExactThenHighest_choose_numbers :: "int list \<Rightarrow> int \<Rightarrow> int list \<Rightarrow> error + int list" where
  "ExactThenHighest_choose_numbers numbers roll answer =
     (if roll \<in> set numbers then Inr (answer @ [roll])
      else case HighestFirst_choose_numbers numbers roll answer of
             Inl e \<Rightarrow> Inl e
           | Inr (found, answer1) \<Rightarrow> Inr answer1)"

section \<open>The strategies that enumerate all solutions\<close>

text \<open>
  The module \<^verbatim>\<open>random\<close> is modelled by an explicit source of randomness: an infinite
  sequence of natural numbers, of which every call consumes the first. \<^verbatim>\<open>randint(a, b)\<close>
  maps it into the range from \<open>a\<close> to \<open>b\<close>, \<^verbatim>\<open>choice(seq)\<close> into the indices of
  \<^verbatim>\<open>seq\<close>; every outcome of either call is the image of some source.
\<close>

type_synonym random_source = "nat \<Rightarrow> nat"

definition randint :: "int \<Rightarrow> int \<Rightarrow> random_source \<Rightarrow> int \<times> random_source" where
  "randint a b rng = (a + int (rng 0 mod nat (b - a + 1)), \<lambda>i. rng (Suc i))"

definition choice :: "'a list \<Rightarrow> random_source \<Rightarrow> error + ('a \<times> random_source)" where
  "choice seq rng =
     (if seq = [] then Inl IndexError
      else Inr (seq ! (rng 0 mod length seq), \<lambda>i. rng (Suc i)))"

text \<open>
  \<^verbatim>\<open>
  class Random(Strategy):
      def choose_numbers(self, numbers, roll):
          solutions = find_all_solutions(numbers, roll)
          if solutions:
              self.answer = choice(solutions)
  \<close>
\<close>

definition Random_choose_numbers ::
  "int list \<Rightarrow> int \<Rightarrow> int list \<Rightarrow> random_source \<Rightarrow> error + (int list \<times> random_source)" where
  "Random_choose_numbers numbers roll answer rng =
     (let solutions = find_all_solutions numbers roll
      in if solutions \<noteq> [] then choice solutions rng else Inr (answer, rng))"

text \<open>
  \<^verbatim>\<open>min\<close> and \<^verbatim>\<open>max\<close> of a sequence raise \<^verbatim>\<open>ValueError\<close> when it is empty, and
  \<^verbatim>\<open>xs[0]\<close> raises \<^verbatim>\<open>IndexError\<close> on an empty list.
\<close>

fun py_min :: "'a::linorder list \<Rightarrow> error + 'a" where
  "py_min [] = Inl ValueError"
| "py_min (x # xs) = Inr (fold min xs x)"

fun py_max :: "'a::linorder list \<Rightarrow> error + 'a" where
  "py_max [] = Inl ValueError"
| "py_max (x # xs) = Inr (fold max xs x)"

fun first_item :: "'a list \<Rightarrow> error + 'a" where
  "first_item [] = Inl IndexError"
| "first_item (x # xs) = Inr x"

text \<open>
  The field \<^verbatim>\<open>secondary_strategy\<close> is a function from a solution to an integer that
  may raise: the script passes \<^verbatim>\<open>min\<close>, which is \<open>py_min\<close>, and suggests
  \<^verbatim>\<open>lambda x: -1 * max(x)\<close>, which is \<open>neg_max\<close>; both raise \<^verbatim>\<open>ValueError\<close> on the
  empty solution.
\<close>

type_synonym secondary = "int list \<Rightarrow> error + int"

definition neg_max :: secondary where
  "neg_max x = (case py_max x of Inl e \<Rightarrow> Inl e | Inr m \<Rightarrow> Inr (- 1 * m))"

text \<open>
  \<^verbatim>\<open>sorted(xs, key=f)\<close> first calls \<^verbatim>\<open>f\<close> on every element of \<^verbatim>\<open>xs\<close>, from the
  first to the last, and an exception of any of these calls ends the sort; then it sorts
  the elements by the values obtained. The sort is stable, as \<^const>\<open>sort_key\<close> is.
\<close>

fun key_values :: "('a \<Rightarrow> error + int) \<Rightarrow> 'a list \<Rightarrow> error + (int \<times> 'a) list" where
  "key_values key [] = Inr []"
| "key_values key (x # xs) =
     (case key x of
        Inl e \<Rightarrow> Inl e
      | Inr k \<Rightarrow>
          (case key_values key xs of
             Inl e \<Rightarrow> Inl e
           | Inr kxs \<Rightarrow> Inr ((k, x) # kxs)))"

definition py_sorted :: "('a \<Rightarrow> error + int) \<Rightarrow> 'a list \<Rightarrow> error + 'a list" where
  "py_sorted key xs =
     (case key_values key xs of
        Inl e \<Rightarrow> Inl e
      | Inr kxs \<Rightarrow> Inr (map snd (sort_key fst kxs)))"

text \<open>
  \<^verbatim>\<open>
  class FewestNumbers(SolutionLength):
      def choose_numbers(self, numbers, roll):
          solutions = find_all_solutions(numbers, roll)
          if solutions:
              shortest_solution_length = min(len(solution) for solution in solutions)
              self.answer = sorted(
                  [solution for solution in solutions if len(solution) == shortest_solution_length],
                  key=lambda sol: self.secondary_strategy(sol),
              )[0]
  \<close>
  \<^verbatim>\<open>MostNumbers\<close> is the same with \<^verbatim>\<open>max\<close> for \<^verbatim>\<open>min\<close>. An exception leaves no
  answer to speak of, so the embedding returns the new value of \<^verbatim>\<open>self.answer\<close> or the
  exception.
\<close>

definition FewestNumbers_choose_numbers ::
  "secondary \<Rightarrow> int list \<Rightarrow> int \<Rightarrow> int list \<Rightarrow> error + int list" where
  "FewestNumbers_choose_numbers secondary_strategy numbers roll answer =
     (let solutions = find_all_solutions numbers roll
      in if solutions \<noteq> [] then
           (case py_min (map length solutions) of
              Inl e \<Rightarrow> Inl e
            | Inr shortest_solution_length \<Rightarrow>
                (case py_sorted secondary_strategy
                        (filter (\<lambda>solution. length solution = shortest_solution_length)
                           solutions) of
                   Inl e \<Rightarrow> Inl e
                 | Inr sorted_solutions \<Rightarrow> first_item sorted_solutions))
         else Inr answer)"

definition MostNumbers_choose_numbers ::
  "secondary \<Rightarrow> int list \<Rightarrow> int \<Rightarrow> int list \<Rightarrow> error + int list" where
  "MostNumbers_choose_numbers secondary_strategy numbers roll answer =
     (let solutions = find_all_solutions numbers roll
      in if solutions \<noteq> [] then
           (case py_max (map length solutions) of
              Inl e \<Rightarrow> Inl e
            | Inr shortest_solution_length \<Rightarrow>
                (case py_sorted secondary_strategy
                        (filter (\<lambda>solution. length solution = shortest_solution_length)
                           solutions) of
                   Inl e \<Rightarrow> Inl e
                 | Inr sorted_solutions \<Rightarrow> first_item sorted_solutions))
         else Inr answer)"

section \<open>Strategy objects and method dispatch\<close>

text \<open>
  The classes of the module. \<^verbatim>\<open>Strategy\<close> and \<^verbatim>\<open>SolutionLength\<close> are the abstract
  bases, whose \<^verbatim>\<open>choose_numbers\<close> is \<^verbatim>\<open>raise NotImplementedError\<close>; \<^verbatim>\<open>SolutionLength\<close>
  and its two subclasses carry the \<^verbatim>\<open>secondary_strategy\<close> given to the constructor. A
  strategy object has its class and the mutable field \<^verbatim>\<open>answer\<close>, which every
  constructor sets to \<^verbatim>\<open>[]\<close>.
\<close>

datatype strategy_class =
    Strategy
  | LowestFirst
  | HighestFirst
  | ExactThenLowest
  | ExactThenHighest
  | Random
  | SolutionLength secondary
  | FewestNumbers secondary
  | MostNumbers secondary

record strategy_obj =
  cls :: strategy_class
  answer :: "int list"

definition new_strategy :: "strategy_class \<Rightarrow> strategy_obj" where
  "new_strategy c = \<lparr>cls = c, answer = []\<rparr>"

text \<open>
  The method call \<^verbatim>\<open>self.choose_numbers(numbers, roll)\<close>: the value returned
  (\<open>None\<close> for Python's \<^verbatim>\<open>None\<close>), the object after the call and the rest of the
  random source, or the exception raised.
\<close>

fun choose_numbers ::
  "strategy_obj \<Rightarrow> int list \<Rightarrow> int \<Rightarrow> random_source \<Rightarrow>
     error + (bool option \<times> strategy_obj \<times> random_source)" where
  "choose_numbers self numbers roll rng =
     (case cls self of
        Strategy \<Rightarrow> Inl NotImplementedError
      | LowestFirst \<Rightarrow>
          (case LowestFirst_choose_numbers numbers roll (answer self) of
             Inl e \<Rightarrow> Inl e
           | Inr (found, a) \<Rightarrow> Inr (Some found, self\<lparr>answer := a\<rparr>, rng))
      | HighestFirst \<Rightarrow>
          (case HighestFirst_choose_numbers numbers roll (answer self) of
             Inl e \<Rightarrow> Inl e
           | Inr (found, a) \<Rightarrow> Inr (Some found, self\<lparr>answer := a\<rparr>, rng))
      | ExactThenLowest \<Rightarrow>
          (case ExactThenLowest_choose_numbers numbers roll (answer self) of
             Inl e \<Rightarrow> Inl e
           | Inr a \<Rightarrow> Inr (None, self\<lparr>answer := a\<rparr>, rng))
      | ExactThenHighest \<Rightarrow>
          (case ExactThenHighest_choose_numbers numbers roll (answer self) of
             Inl e \<Rightarrow> Inl e
           | Inr a \<Rightarrow> Inr (None, self\<lparr>answer := a\<rparr>, rng))
      | Random \<Rightarrow>
          (case Random_choose_numbers numbers roll (answer self) rng of
             Inl e \<Rightarrow> Inl e
           | Inr (a, rng1) \<Rightarrow> Inr (None, self\<lparr>answer := a\<rparr>, rng1))
      | SolutionLength secondary_strategy \<Rightarrow> Inl NotImplementedError
      | FewestNumbers secondary_strategy \<Rightarrow>
          (case FewestNumbers_choose_numbers secondary_strategy numbers roll (answer self) of
             Inl e \<Rightarrow> Inl e
           | Inr a \<Rightarrow> Inr (None, self\<lparr>answer := a\<rparr>, rng))
      | MostNumbers secondary_strategy \<Rightarrow>
          (case MostNumbers_choose_numbers secondary_strategy numbers roll (answer self) of
             Inl e \<Rightarrow> Inl e
           | Inr a \<Rightarrow> Inr (None, self\<lparr>answer := a\<rparr>, rng)))"

section \<open>The game\<close>

text \<open>
  \<^verbatim>\<open>
  class Game:
      def __init__(self, strategy):
          self.numbers = [num for num in range(1, 10)]
          self.strategy = strategy

      def play(self):
          roll = self.roll()
          self.strategy.choose_numbers(self.numbers, roll)
          while self.numbers and self.strategy.answer:
              for number in strategy.answer:
                  self.numbers.remove(number)
              strategy.answer = []
              roll = self.roll()
              self.strategy.choose_numbers(self.numbers, roll)

      def roll(self):
          if self.numbers == [1]:
              return randint(1, 6)
          return randint(1, 6) + randint(1, 6)

      def score(self):
          return sum(self.numbers)
  \<close>
  Strategy objects are shared and mutated, so they live in a store from references to
  objects, and a game holds the reference of its strategy. Inside the loop \<^verbatim>\<open>play\<close> reads
  \<^verbatim>\<open>strategy.answer\<close> and assigns \<^verbatim>\<open>strategy.answer = []\<close>: this \<^verbatim>\<open>strategy\<close> is not
  \<^verbatim>\<open>self.strategy\<close> but the module-level name, which only the script's main block binds
  (\<^verbatim>\<open>strategy = MostNumbers(secondary_strategy=min)\<close>, the object it then passes to every
  \<^verbatim>\<open>Game\<close>). The binding of that name is the argument \<open>global_strategy\<close>: \<open>None\<close>
  when the name is unbound, in which case reading it raises \<^verbatim>\<open>NameError\<close>.

  The \<^verbatim>\<open>while\<close> loop has no bound in the code, so it takes fuel: \<open>None\<close> is a loop that
  has not ended when the fuel is spent.
\<close>

type_synonym ref = nat

type_synonym heap = "ref \<Rightarrow> strategy_obj"

record game =
  numbers :: "int list"
  strategy :: ref

definition Game :: "ref \<Rightarrow> game" where
  "Game strategy_ref = \<lparr>numbers = [1..9], strategy = strategy_ref\<rparr>"

definition Game_roll :: "game \<Rightarrow> random_source \<Rightarrow> int \<times> random_source" where
  "Game_roll self rng =
     (if numbers self = [1] then randint 1 6 rng
      else (let (a, rng1) = randint 1 6 rng;
                (b, rng2) = randint 1 6 rng1
            in (a + b, rng2)))"

definition Game_score :: "game \<Rightarrow> int" where
  "Game_score self = sum_list (numbers self)"

text \<open>
  The inner loop \<^verbatim>\<open>for number in strategy.answer: self.numbers.remove(number)\<close>.
\<close>

fun remove_numbers :: "int list \<Rightarrow> int list \<Rightarrow> error + int list" where
  "remove_numbers [] nums = Inr nums"
| "remove_numbers (number # rest) nums =
     (case list_remove number nums of
        Inl e \<Rightarrow> Inl e
      | Inr nums1 \<Rightarrow> remove_numbers rest nums1)"

fun Game_play_while ::
  "nat \<Rightarrow> ref option \<Rightarrow> game \<Rightarrow> heap \<Rightarrow> random_source \<Rightarrow>
     (error + (game \<times> heap \<times> random_source)) option" where
  "Game_play_while 0 global_strategy self heap rng = None"
| "Game_play_while (Suc fuel) global_strategy self heap rng =
     (if numbers self \<noteq> [] \<and> answer (heap (strategy self)) \<noteq> [] then
        (case global_strategy of
           None \<Rightarrow> Some (Inl NameError)
         | Some g \<Rightarrow>
             (case remove_numbers (answer (heap g)) (numbers self) of
                Inl e \<Rightarrow> Some (Inl e)
              | Inr nums \<Rightarrow>
                  (let self1 = self\<lparr>numbers := nums\<rparr>;
                       heap1 = heap(g := (heap g)\<lparr>answer := []\<rparr>);
                       (r, rng1) = Game_roll self1 rng
                   in case choose_numbers (heap1 (strategy self1)) (numbers self1) r rng1 of
                        Inl e \<Rightarrow> Some (Inl e)
                      | Inr (res, obj, rng2) \<Rightarrow>
                          Game_play_while fuel global_strategy self1
                            (heap1(strategy self1 := obj)) rng2)))
      else Some (Inr (self, heap, rng)))"

definition Game_play ::
  "nat \<Rightarrow> ref option \<Rightarrow> game \<Rightarrow> heap \<Rightarrow> random_source \<Rightarrow>
     (error + (game \<times> heap \<times> random_source)) option" where
  "Game_play fuel global_strategy self heap rng =
     (let (r, rng1) = Game_roll self rng
      in case choose_numbers (heap (strategy self)) (numbers self) r rng1 of
           Inl e \<Rightarrow> Some (Inl e)
         | Inr (res, obj, rng2) \<Rightarrow>
             Game_play_while fuel global_strategy self (heap(strategy self := obj)) rng2)"

section \<open>Properties of the solution search\<close>

lemmas recurse_unfold = recurse.simps

lemmas recurse_for_Cons_raw = recurse_for.simps(2)

declare recurse.simps [simp del]

declare recurse_for.simps(2) [simp del]

text \<open>
  The search only ever appends to the list of solutions, and what it appends is the
  current subsolution followed by what a search from the empty subsolution finds.
\<close>

lemma map_append_Nil: "map ((@) []) xs = xs"
  by (induction xs) auto

lemma recurse_neg: "target < 0 \<Longrightarrow> recurse nums target sub sols = sols"
  by (simp add: recurse_unfold [of nums target])

lemma recurse_zero: "recurse nums 0 sub sols = recurse_for nums 0 sub (sols @ [sub])"
  by (simp add: recurse_unfold [of nums 0])

lemma recurse_pos: "0 < target \<Longrightarrow> recurse nums target sub sols = recurse_for nums target sub sols"
  by (simp add: recurse_unfold [of nums target])

lemma recurse_acc_step:
  assumes A: "\<And>target sub sols.
     recurse_for nums target sub sols = sols @ map ((@) sub) (recurse_for nums target [] [])"
  shows "recurse nums target sub sols = sols @ map ((@) sub) (recurse nums target [] [])"
proof -
  consider (neg) "target < 0" | (zero) "target = 0" | (pos) "0 < target"
    by linarith
  then show ?thesis
  proof cases
    case neg
    then show ?thesis by (simp add: recurse_neg)
  next
    case zero
    have "recurse nums 0 sub sols = (sols @ [sub]) @ map ((@) sub) (recurse_for nums 0 [] [])"
      unfolding recurse_zero by (rule A)
    moreover have "recurse nums 0 [] [] = [[]] @ map ((@) []) (recurse_for nums 0 [] [])"
      unfolding recurse_zero using A [of 0 "[]" "[[]]"] by simp
    ultimately show ?thesis
      unfolding zero by (simp add: map_append_Nil)
  next
    case pos
    have "recurse_for nums target sub sols = sols @ map ((@) sub) (recurse_for nums target [] [])"
      by (rule A)
    with pos show ?thesis
      by (simp add: recurse_pos)
  qed
qed

lemma recurse_for_acc:
  "recurse_for nums target sub sols = sols @ map ((@) sub) (recurse_for nums target [] [])"
proof (induction nums arbitrary: target sub sols)
  case Nil
  show ?case by simp
next
  case (Cons n rest)
  have R: "\<And>t s ss. recurse rest t s ss = ss @ map ((@) s) (recurse rest t [] [])"
    by (rule recurse_acc_step) (rule Cons.IH)
  have "recurse_for (n # rest) target sub sols =
          recurse_for rest target sub (recurse rest (target - n) (sub @ [n]) sols)"
    by (rule recurse_for_Cons_raw)
  also have "\<dots> = recurse rest (target - n) (sub @ [n]) sols
                   @ map ((@) sub) (recurse_for rest target [] [])"
    by (rule Cons.IH)
  also have "recurse rest (target - n) (sub @ [n]) sols =
               sols @ map ((@) (sub @ [n])) (recurse rest (target - n) [] [])"
    by (rule R)
  finally have lhs: "recurse_for (n # rest) target sub sols =
      sols @ map ((@) (sub @ [n])) (recurse rest (target - n) [] [])
           @ map ((@) sub) (recurse_for rest target [] [])"
    by simp
  have "recurse_for (n # rest) target [] [] =
          recurse_for rest target [] (recurse rest (target - n) [n] [])"
    using recurse_for_Cons_raw [of n rest target "[]" "[]"] by simp
  also have "\<dots> = recurse rest (target - n) [n] [] @ map ((@) []) (recurse_for rest target [] [])"
    by (rule Cons.IH)
  also have "recurse rest (target - n) [n] [] = [] @ map ((@) [n]) (recurse rest (target - n) [] [])"
    by (rule R)
  finally have rhs: "recurse_for (n # rest) target [] [] =
      map ((@) [n]) (recurse rest (target - n) [] []) @ recurse_for rest target [] []"
    by (simp add: map_append_Nil)
  show ?case
    unfolding lhs rhs by simp
qed

lemma recurse_acc:
  "recurse nums target sub sols = sols @ map ((@) sub) (recurse nums target [] [])"
  by (rule recurse_acc_step) (rule recurse_for_acc)

lemma find_all_solutions_neg: "target < 0 \<Longrightarrow> find_all_solutions nums target = []"
  by (simp add: find_all_solutions_def recurse_neg)

lemma find_all_solutions_zero:
  "find_all_solutions nums 0 = [] # recurse_for nums 0 [] []"
proof -
  have "recurse_for nums 0 [] [[]] = [[]] @ map ((@) []) (recurse_for nums 0 [] [])"
    by (rule recurse_for_acc)
  then show ?thesis
    by (simp add: find_all_solutions_def recurse_zero map_append_Nil)
qed

lemma find_all_solutions_pos:
  "0 < target \<Longrightarrow> find_all_solutions nums target = recurse_for nums target [] []"
  by (simp add: find_all_solutions_def recurse_pos)

lemma recurse_for_Cons:
  "recurse_for (n # rest) target [] [] =
     map ((#) n) (find_all_solutions rest (target - n)) @ recurse_for rest target [] []"
proof -
  have "recurse_for (n # rest) target [] [] =
          recurse_for rest target [] (recurse rest (target - n) [n] [])"
    using recurse_for_Cons_raw [of n rest target "[]" "[]"] by simp
  also have "\<dots> = recurse rest (target - n) [n] [] @ map ((@) []) (recurse_for rest target [] [])"
    by (rule recurse_for_acc)
  also have "recurse rest (target - n) [n] [] = [] @ map ((@) [n]) (recurse rest (target - n) [] [])"
    by (rule recurse_acc)
  finally show ?thesis
    by (simp add: find_all_solutions_def map_append_Nil)
qed

lemma subseq_set_subset: "subseq xs ys \<Longrightarrow> set xs \<subseteq> set ys"
  by (induction rule: list_emb.induct) auto

lemma sum_list_pos_subseq:
  assumes "\<forall>n \<in> set nums. (0::int) < n" "subseq s nums"
  shows "0 \<le> sum_list s" "s \<noteq> [] \<Longrightarrow> 0 < sum_list s"
proof -
  from assms have pos: "\<forall>n \<in> set s. 0 < n"
    using subseq_set_subset [of s nums] by auto
  then show "0 \<le> sum_list s" by (induction s) auto
  from pos show "s \<noteq> [] \<Longrightarrow> 0 < sum_list s"
    by (induction s) (auto simp: add_pos_nonneg sum_list_nonneg less_imp_le)
qed

lemma set_find_all_solutions_step:
  assumes pos: "\<forall>n \<in> set nums. 0 < n"
    and A: "\<And>t. set (recurse_for nums t [] []) =
           {s. subseq s nums \<and> s \<noteq> [] \<and> sum_list s = t}"
  shows "set (find_all_solutions nums target) =
           {s. subseq s nums \<and> sum_list s = target}"
proof -
  note P = sum_list_pos_subseq [OF pos]
  consider (neg) "target < 0" | (zero) "target = 0" | (pos) "0 < target"
    by linarith
  then show ?thesis
  proof cases
    case neg
    with P(1) show ?thesis
      by (fastforce simp: find_all_solutions_neg)
  next
    case zero
    have e1: "set (recurse_for nums 0 [] []) = {}"
      unfolding A using P(2) by fastforce
    have e2: "{s. subseq s nums \<and> sum_list s = 0} = {[]}"
      using P(2) by fastforce
    show ?thesis
      unfolding zero find_all_solutions_zero e2 by (simp add: e1)
  next
    case pos
    then show ?thesis
      by (auto simp: find_all_solutions_pos A)
  qed
qed

lemma set_recurse_for:
  assumes "\<forall>n \<in> set nums. 0 < n"
  shows "set (recurse_for nums target [] []) =
           {s. subseq s nums \<and> s \<noteq> [] \<and> sum_list s = target}"
  using assms
proof (induction nums arbitrary: target)
  case Nil
  show ?case by auto
next
  case (Cons n rest)
  then have pos: "\<forall>n \<in> set rest. 0 < n" and n: "0 < n" by auto
  have IH: "\<And>t. set (recurse_for rest t [] []) = {s. subseq s rest \<and> s \<noteq> [] \<and> sum_list s = t}"
    using Cons.IH pos by blast
  have F: "\<And>t. set (find_all_solutions rest t) = {s. subseq s rest \<and> sum_list s = t}"
    by (rule set_find_all_solutions_step [OF pos IH])
  show ?case
  proof (rule set_eqI)
    fix s
    show "s \<in> set (recurse_for (n # rest) target [] []) \<longleftrightarrow>
          s \<in> {s. subseq s (n # rest) \<and> s \<noteq> [] \<and> sum_list s = target}"
    proof (cases s)
      case Nil
      then show ?thesis by (auto simp: recurse_for_Cons IH F)
    next
      case (Cons x xs)
      then show ?thesis
        by (auto simp: recurse_for_Cons IH F dest: subseq_Cons')
    qed
  qed
qed

lemma set_find_all_solutions:
  assumes "\<forall>n \<in> set nums. 0 < n"
  shows "set (find_all_solutions nums target) =
           {s. subseq s nums \<and> sum_list s = target}"
  by (rule set_find_all_solutions_step [OF assms set_recurse_for [OF assms]])

lemma Nil_notin_recurse_for:
  "\<forall>n \<in> set nums. 0 < n \<Longrightarrow> [] \<notin> set (recurse_for nums target [] [])"
  by (simp add: set_recurse_for)

lemma distinct_find_all_solutions_step:
  assumes "\<forall>n \<in> set nums. 0 < n" "\<And>t. distinct (recurse_for nums t [] [])"
  shows "distinct (find_all_solutions nums target)"
proof -
  consider (neg) "target < 0" | (zero) "target = 0" | (pos) "0 < target"
    by linarith
  then show ?thesis
  proof cases
    case neg
    then show ?thesis by (simp add: find_all_solutions_neg)
  next
    case zero
    show ?thesis
      unfolding zero by (simp add: find_all_solutions_zero assms(2) Nil_notin_recurse_for [OF assms(1)])
  next
    case pos
    then show ?thesis by (simp add: find_all_solutions_pos assms(2))
  qed
qed

lemma distinct_recurse_for:
  assumes "\<forall>n \<in> set nums. 0 < n" "distinct nums"
  shows "distinct (recurse_for nums target [] [])"
  using assms
proof (induction nums arbitrary: target)
  case Nil
  show ?case by simp
next
  case (Cons n rest)
  then have pos: "\<forall>n \<in> set rest. 0 < n" and d: "distinct rest" and n: "n \<notin> set rest" by auto
  have IH: "\<And>t. distinct (recurse_for rest t [] [])"
    using Cons.IH pos d by blast
  have F: "distinct (find_all_solutions rest (target - n))"
    by (rule distinct_find_all_solutions_step [OF pos IH])
  have "\<And>s. s \<in> set (recurse_for rest target [] []) \<Longrightarrow> n \<notin> set s"
    using n subseq_set_subset [of _ rest] by (auto simp: set_recurse_for [OF pos])
  then have disj: "set (map ((#) n) (find_all_solutions rest (target - n))) \<inter> set (recurse_for rest target [] []) = {}"
    by fastforce
  show ?case
    unfolding recurse_for_Cons distinct_append
    using F IH disj by (simp add: distinct_map)
qed

lemma distinct_find_all_solutions:
  assumes "\<forall>n \<in> set nums. 0 < n" "distinct nums"
  shows "distinct (find_all_solutions nums target)"
  by (rule distinct_find_all_solutions_step [OF assms(1) distinct_recurse_for [OF assms]])

lemma distinct_sets_find_all_solutions:
  assumes "\<forall>n \<in> set nums. 0 < n" "distinct nums"
  shows "distinct (map set (find_all_solutions nums target))"
proof -
  have "inj_on set (set (subseqs nums))"
    using distinct_set_subseqs [OF assms(2)] by (simp add: distinct_map)
  moreover have "set (find_all_solutions nums target) \<subseteq> set (subseqs nums)"
    by (auto simp: set_find_all_solutions [OF assms(1)])
  ultimately have "inj_on set (set (find_all_solutions nums target))"
    by (rule inj_on_subset)
  with distinct_find_all_solutions [OF assms] show ?thesis
    by (simp add: distinct_map)
qed

lemma count_list_distinct_member: "distinct xs \<Longrightarrow> x \<in> set xs \<Longrightarrow> count_list xs x = 1"
  by (induction xs) auto

lemma NumberSet_pos: "NumberSet nums \<Longrightarrow> \<forall>n \<in> set nums. 0 < n"
  by (auto simp: NumberSet_def)

lemma NumberSet_distinct: "NumberSet nums \<Longrightarrow> distinct nums"
  by (simp add: NumberSet_def)

lemma subseq_distinct: "subseq xs ys \<Longrightarrow> distinct ys \<Longrightarrow> distinct xs"
  using subseqs_distinctD [of xs ys] by simp

text \<open>
  C1 (soundness of the search). For distinct numbers between 1 and 9 and a target that is
  not negative, every solution found is a subsequence of \<open>nums\<close> (so its elements are
  drawn from \<open>nums\<close>, each position used at most once), has no repeated element and
  sums to the target; and no two entries of the result are equal as sets.
\<close>

theorem find_all_solutions_sound:
  assumes "NumberSet nums" and "0 \<le> target"
  shows "(\<forall>s \<in> set (find_all_solutions nums target).
            subseq s nums \<and> set s \<subseteq> set nums \<and> distinct s \<and> sum_list s = target)
         \<and> distinct (map set (find_all_solutions nums target))"
proof -
  note pos = NumberSet_pos [OF assms(1)] and d = NumberSet_distinct [OF assms(1)]
  have "\<forall>s \<in> set (find_all_solutions nums target).
            subseq s nums \<and> set s \<subseteq> set nums \<and> distinct s \<and> sum_list s = target"
    using subseq_set_subset [of _ nums] subseq_distinct [OF _ d]
    by (auto simp: set_find_all_solutions [OF pos])
  then show ?thesis
    using distinct_sets_find_all_solutions [OF pos d] by blast
qed

theorem find_all_solutions_sound_witness:
  "NumberSet [1, 2, 3, 4] \<and> (0::int) \<le> 5 \<and> [2, 3] \<in> set (find_all_solutions [1, 2, 3, 4] 5) \<and>
   subseq [2, 3] [1, 2, 3, 4 :: int] \<and> set [2, 3] \<subseteq> set [1, 2, 3, 4 :: int] \<and>
   distinct [2, 3 :: int] \<and> sum_list [2, 3] = (5::int) \<and>
   distinct (map set (find_all_solutions [1, 2, 3, 4] 5))"
proof -
  have h: "NumberSet [1, 2, 3, 4]" by (simp add: NumberSet_def)
  have z: "(0::int) \<le> 5" by simp
  have m: "[2, 3] \<in> set (find_all_solutions [1, 2, 3, 4] 5)"
    by (simp add: find_all_solutions_def recurse_unfold recurse_for_Cons_raw)
  show ?thesis
    using h z m find_all_solutions_sound [OF h z] by blast
qed

text \<open>
  C2 (completeness of the search). For distinct numbers between 1 and 9 and a target that
  is not negative, every subset \<open>S\<close> of the numbers whose elements sum to the target occurs
  exactly once among the solutions found, read as sets; and on \<open>[1, 2, 3, 4]\<close> with
  target 5 the result is the two solutions \<open>[1, 4]\<close> and \<open>[2, 3]\<close>.
\<close>

theorem find_all_solutions_complete:
  assumes "NumberSet nums" and "0 \<le> target" and "S \<subseteq> set nums" and "\<Sum>S = target"
  shows "count_list (map set (find_all_solutions nums target)) S = 1
         \<and> find_all_solutions [1, 2, 3, 4] 5 = [[1, 4], [2, 3]]"
proof -
  note pos = NumberSet_pos [OF assms(1)] and d = NumberSet_distinct [OF assms(1)]
  from assms(3) obtain s where s: "s \<in> set (subseqs nums)" "set s = S"
    using subset_subseqs [of S nums] by auto
  then have sub: "subseq s nums" by simp
  then have "distinct s" using d by (rule subseq_distinct)
  then have "sum_list s = \<Sum>(set s)"
    using sum_list_distinct_conv_sum_set [of s "\<lambda>x. x"] by simp
  with s(2) assms(4) sub have "s \<in> set (find_all_solutions nums target)"
    by (simp add: set_find_all_solutions [OF pos])
  with s(2) have "S \<in> set (map set (find_all_solutions nums target))"
    by auto
  then have "count_list (map set (find_all_solutions nums target)) S = 1"
    using distinct_sets_find_all_solutions [OF pos d] by (rule count_list_distinct_member [rotated])
  moreover have "find_all_solutions [1, 2, 3, 4] 5 = [[1, 4], [2, 3]]"
    by (simp add: find_all_solutions_def recurse_unfold recurse_for_Cons_raw)
  ultimately show ?thesis by simp
qed

theorem find_all_solutions_complete_witness:
  "NumberSet [1, 2, 3, 4] \<and> (0::int) \<le> 5 \<and> {2, 3} \<subseteq> set [1, 2, 3, 4 :: int] \<and> \<Sum>{2, 3 :: int} = 5
   \<and> count_list (map set (find_all_solutions [1, 2, 3, 4] 5)) {2, 3} = 1
   \<and> find_all_solutions [1, 2, 3, 4] 5 = [[1, 4], [2, 3]]"
proof -
  have h: "NumberSet [1, 2, 3, 4]" by (simp add: NumberSet_def)
  have s: "{2, 3} \<subseteq> set [1, 2, 3, 4 :: int]" by simp
  have t: "\<Sum>{2, 3 :: int} = 5" by simp
  have z: "(0::int) \<le> 5" by simp
  show ?thesis
    using h s t z find_all_solutions_complete [OF h z s t] by blast
qed

text \<open>
  C10 (zero target). For distinct numbers between 1 and 9, the empty list included, the
  search for target 0 returns exactly one solution, the empty list.
\<close>

theorem find_all_solutions_zero_target:
  assumes "NumberSet nums"
  shows "find_all_solutions nums 0 = [[]]"
proof -
  note pos = NumberSet_pos [OF assms]
  have "{s. subseq s nums \<and> s \<noteq> [] \<and> sum_list s = 0} = {}"
    using sum_list_pos_subseq(2) [OF pos] by fastforce
  then have "set (recurse_for nums 0 [] []) = {}"
    by (simp only: set_recurse_for [OF pos])
  then show ?thesis
    by (simp add: find_all_solutions_zero)
qed

theorem find_all_solutions_zero_target_witness:
  "NumberSet [] \<and> NumberSet [2, 5, 9] \<and>
   find_all_solutions [] 0 = [[]] \<and> find_all_solutions [2, 5, 9] 0 = [[]]"
proof -
  have h1: "NumberSet []" and h2: "NumberSet [2, 5, 9]" by (simp_all add: NumberSet_def)
  show ?thesis
    using h1 h2 find_all_solutions_zero_target [OF h1] find_all_solutions_zero_target [OF h2]
    by simp
qed

section \<open>Properties of the greedy searches\<close>

lemmas LowestFirst_choose_numbers_unfold = LowestFirst_choose_numbers.simps
lemmas LowestFirst_for_unfold = LowestFirst_for.simps
lemmas HighestFirst_choose_numbers_unfold = HighestFirst_choose_numbers.simps
lemmas HighestFirst_for_unfold = HighestFirst_for.simps

declare LowestFirst_choose_numbers.simps [simp del] LowestFirst_for.simps [simp del]
declare HighestFirst_choose_numbers.simps [simp del] HighestFirst_for.simps [simp del]

lemma remove1_snoc_fresh: "x \<notin> set xs \<Longrightarrow> remove1 x (xs @ [x]) = xs"
  by (simp add: remove1_append)

lemma LowestFirst_for_Nil: "LowestFirst_for [] nums roll ans = Inr (False, ans)"
  by (simp add: LowestFirst_for_unfold)

lemma LowestFirst_for_prune:
  "number > roll \<Longrightarrow> LowestFirst_for (number # rest) nums roll ans = Inr (False, ans)"
  by (simp add: LowestFirst_for_unfold)

lemma LowestFirst_for_found:
  assumes "\<not> number > roll" "number \<in> set nums"
    and "LowestFirst_choose_numbers (remove1 number nums) (roll - number) (ans @ [number])
           = Inr (True, a)"
  shows "LowestFirst_for (number # rest) nums roll ans = Inr (True, a)"
  using assms by (simp add: LowestFirst_for_unfold list_remove_def)

lemma LowestFirst_for_retract:
  assumes "\<not> number > roll" "number \<in> set nums" "number \<notin> set ans"
    and "LowestFirst_choose_numbers (remove1 number nums) (roll - number) (ans @ [number])
           = Inr (False, ans @ [number])"
  shows "LowestFirst_for (number # rest) nums roll ans = LowestFirst_for rest nums roll ans"
  using assms by (simp add: LowestFirst_for_unfold list_remove_def remove1_snoc_fresh)

lemma LowestFirst_search:
  shows "distinct nums \<Longrightarrow> set ans \<inter> set nums = {} \<Longrightarrow>
         \<exists>found a. LowestFirst_choose_numbers nums roll ans = Inr (found, a) \<and>
           (\<not> found \<longrightarrow> a = ans) \<and>
           (found \<longrightarrow> (\<exists>s. a = ans @ s \<and> set s \<subseteq> set nums \<and> distinct s \<and> sum_list s = roll))"
    and "distinct nums \<Longrightarrow> set ans \<inter> set nums = {} \<Longrightarrow> set todo \<subseteq> set nums \<Longrightarrow>
         \<exists>found a. LowestFirst_for todo nums roll ans = Inr (found, a) \<and>
           (\<not> found \<longrightarrow> a = ans) \<and>
           (found \<longrightarrow> (\<exists>s. a = ans @ s \<and> set s \<subseteq> set nums \<and> distinct s \<and> sum_list s = roll))"
proof (induction nums roll ans and todo nums roll ans
        rule: LowestFirst_choose_numbers_LowestFirst_for.induct)
  case (1 nums roll ans)
  show ?case
  proof (cases "roll = 0")
    case True
    then have "LowestFirst_choose_numbers nums roll ans = Inr (True, ans)"
      by (simp add: LowestFirst_choose_numbers_unfold)
    with True show ?thesis by auto
  next
    case False
    with "1.IH" [OF False "1.prems"] show ?thesis
      by (simp add: LowestFirst_choose_numbers_unfold)
  qed
next
  case (2 nums roll ans)
  show ?case by (auto simp: LowestFirst_for_Nil)
next
  case (3 number rest nums roll ans)
  show ?case
  proof (cases "number > roll")
    case True
    then show ?thesis by (auto simp: LowestFirst_for_prune)
  next
    case False
    then have le: "\<not> roll < number" by simp
    from "3.prems" have mem: "number \<in> set nums" and fresh: "number \<notin> set ans"
      and rest: "set rest \<subseteq> set nums" by auto
    let ?new = "remove1 number nums"
    have rm: "list_remove number nums = Inr ?new"
      using mem by (simp add: list_remove_def)
    have d: "distinct ?new" using "3.prems"(1) by simp
    have new_set: "set ?new = set nums - {number}"
      using "3.prems"(1) by simp
    have disj: "set (ans @ [number]) \<inter> set ?new = {}"
      using "3.prems"(2) new_set by auto
    from "3.IH"(1) [OF le rm d disj]
    obtain found a where call: "LowestFirst_choose_numbers ?new (roll - number) (ans @ [number]) = Inr (found, a)"
      and nf: "\<not> found \<Longrightarrow> a = ans @ [number]"
      and f: "found \<Longrightarrow> \<exists>s. a = (ans @ [number]) @ s \<and> set s \<subseteq> set ?new \<and> distinct s \<and> sum_list s = roll - number"
      by blast
    show ?thesis
    proof (cases found)
      case True
      with call have eq: "LowestFirst_for (number # rest) nums roll ans = Inr (True, a)"
        using LowestFirst_for_found [OF False mem] by simp
      from f [OF True] obtain s where s: "a = (ans @ [number]) @ s" "set s \<subseteq> set ?new"
        "distinct s" "sum_list s = roll - number" by blast
      have "a = ans @ (number # s) \<and> set (number # s) \<subseteq> set nums \<and> distinct (number # s)
            \<and> sum_list (number # s) = roll"
        using s mem new_set by auto
      with eq show ?thesis by blast
    next
      case False
      with call nf have call': "LowestFirst_choose_numbers ?new (roll - number) (ans @ [number])
           = Inr (False, ans @ [number])" by simp
      have eq: "LowestFirst_for (number # rest) nums roll ans = LowestFirst_for rest nums roll ans"
        by (rule LowestFirst_for_retract [OF \<open>\<not> number > roll\<close> mem fresh call'])
      have rm2: "list_remove number (ans @ [number]) = Inr ans"
        using fresh by (simp add: list_remove_def remove1_snoc_fresh)
      from "3.IH"(2) [OF le rm call' refl not_False_eq_True [THEN iffD2, OF TrueI] rm2 "3.prems"(1,2) rest]
      show ?thesis unfolding eq by simp
    qed
  qed
qed

lemma strict_sorted_remove1: "sorted_wrt (<) xs \<Longrightarrow> sorted_wrt (<) (remove1 (x::int) xs)"
  by (simp add: strict_sorted_iff sorted_remove1)

lemma sum_pos_member_le:
  assumes "finite S" "\<forall>n \<in> S. (0::int) < n" "x \<in> S"
  shows "x \<le> \<Sum>S"
  using member_le_sum [of x S "\<lambda>n. n"] assms by (simp add: less_imp_le)

lemma sum_insert_list:
  assumes "distinct s" "number \<notin> set s"
  shows "\<Sum>(insert number (set s)) = number + sum_list (s :: int list)"
  using assms sum_list_distinct_conv_sum_set [of s "\<lambda>x. x"] by simp

lemma LowestFirst_complete:
  shows "sorted_wrt (<) nums \<Longrightarrow> \<forall>n \<in> set nums. 0 < n \<Longrightarrow> set ans \<inter> set nums = {} \<Longrightarrow>
         \<forall>found a. LowestFirst_choose_numbers nums roll ans = Inr (found, a) \<longrightarrow>
           (found \<longrightarrow> sorted_wrt (<) (drop (length ans) a)) \<and>
           (\<not> found \<longrightarrow> (\<forall>S. S \<subseteq> set nums \<longrightarrow> \<Sum>S \<noteq> roll))"
    and "sorted_wrt (<) nums \<Longrightarrow> \<forall>n \<in> set nums. 0 < n \<Longrightarrow> set ans \<inter> set nums = {} \<Longrightarrow>
         sorted_wrt (<) todo \<Longrightarrow> set todo \<subseteq> set nums \<Longrightarrow> roll \<noteq> 0 \<Longrightarrow>
         \<forall>S. S \<subseteq> set nums \<and> \<Sum>S = roll \<longrightarrow> S \<subseteq> set todo \<Longrightarrow>
         \<forall>found a. LowestFirst_for todo nums roll ans = Inr (found, a) \<longrightarrow>
           (found \<longrightarrow> sorted_wrt (<) (drop (length ans) a)) \<and>
           (\<not> found \<longrightarrow> (\<forall>S. S \<subseteq> set nums \<longrightarrow> \<Sum>S \<noteq> roll))"
proof (induction nums roll ans and todo nums roll ans
        rule: LowestFirst_choose_numbers_LowestFirst_for.induct)
  case (1 nums roll ans)
  show ?case
  proof (cases "roll = 0")
    case True
    then show ?thesis by (simp add: LowestFirst_choose_numbers_unfold)
  next
    case False
    have "\<forall>S. S \<subseteq> set nums \<and> \<Sum>S = roll \<longrightarrow> S \<subseteq> set nums" by simp
    from "1.IH" [OF False "1.prems" "1.prems"(1) subset_refl False this] False
    show ?thesis
      by (simp add: LowestFirst_choose_numbers_unfold)
  qed
next
  case (2 nums roll ans)
  have "\<And>S. S \<subseteq> set nums \<Longrightarrow> \<Sum>S \<noteq> roll"
  proof
    fix S assume "S \<subseteq> set nums" "\<Sum>S = roll"
    with "2.prems"(7) have "S = {}" by simp
    with \<open>\<Sum>S = roll\<close> "2.prems"(6) show False by simp
  qed
  then show ?case by (simp add: LowestFirst_for_Nil)
next
  case (3 number rest nums roll ans)
  note sorted = "3.prems"(1) and pos = "3.prems"(2) and disj0 = "3.prems"(3)
    and todo = "3.prems"(4) and sub = "3.prems"(5) and nz = "3.prems"(6) and inv = "3.prems"(7)
  have dist: "distinct nums" using sorted by (simp add: strict_sorted_iff)
  have fin: "\<And>S. S \<subseteq> set nums \<Longrightarrow> finite S"
    by (rule finite_subset) auto
  show ?case
  proof (cases "number > roll")
    case True
    have "\<And>S. S \<subseteq> set nums \<Longrightarrow> \<Sum>S \<noteq> roll"
    proof
      fix S assume S: "S \<subseteq> set nums" "\<Sum>S = roll"
      with inv have St: "S \<subseteq> set (number # rest)" by blast
      from S nz have "S \<noteq> {}" by auto
      then obtain x where x: "x \<in> S" by blast
      with St todo have "number \<le> x" by fastforce
      moreover have "x \<le> \<Sum>S"
        using sum_pos_member_le [OF fin [OF S(1)] _ x] pos S(1) by blast
      ultimately show False using True S(2) by simp
    qed
    then show ?thesis using True by (simp add: LowestFirst_for_prune)
  next
    case False
    then have le: "\<not> roll < number" by simp
    from sub disj0 have mem: "number \<in> set nums" and fresh: "number \<notin> set ans"
      and rest: "set rest \<subseteq> set nums" by auto
    let ?new = "remove1 number nums"
    have rm: "list_remove number nums = Inr ?new"
      using mem by (simp add: list_remove_def)
    have new_sorted: "sorted_wrt (<) ?new" using sorted by (rule strict_sorted_remove1)
    have new_set: "set ?new = set nums - {number}"
      using dist by simp
    have new_pos: "\<forall>n \<in> set ?new. 0 < n" using pos new_set by simp
    have disj: "set (ans @ [number]) \<inter> set ?new = {}"
      using disj0 new_set by auto
    from LowestFirst_search(1) [of ?new "ans @ [number]" "roll - number"] dist disj
    obtain found a where call: "LowestFirst_choose_numbers ?new (roll - number) (ans @ [number]) = Inr (found, a)"
      and nf: "\<not> found \<Longrightarrow> a = ans @ [number]"
      and f: "found \<Longrightarrow> \<exists>s. a = (ans @ [number]) @ s \<and> set s \<subseteq> set ?new \<and> distinct s \<and> sum_list s = roll - number"
      by auto
    from "3.IH"(1) [OF le rm new_sorted new_pos disj] call
    have IH1: "found \<Longrightarrow> sorted_wrt (<) (drop (length (ans @ [number])) a)"
      and IH1': "\<not> found \<Longrightarrow> \<forall>S. S \<subseteq> set ?new \<longrightarrow> \<Sum>S \<noteq> roll - number"
      by blast+
    show ?thesis
    proof (cases found)
      case True
      with call have eq: "LowestFirst_for (number # rest) nums roll ans = Inr (True, a)"
        using LowestFirst_for_found [OF False mem] by simp
      from f [OF True] obtain s where s: "a = (ans @ [number]) @ s" "set s \<subseteq> set ?new"
        "distinct s" "sum_list s = roll - number" by blast
      from s(2) new_set have ns: "number \<notin> set s" and ss: "set s \<subseteq> set nums" by auto
      have "\<Sum>(insert number (set s)) = roll"
        using sum_insert_list [OF s(3) ns] s(4) by simp
      moreover have "insert number (set s) \<subseteq> set nums" using mem ss by simp
      ultimately have "insert number (set s) \<subseteq> set (number # rest)" using inv by blast
      with ns have "set s \<subseteq> set rest" by auto
      with todo have gt: "\<forall>x \<in> set s. number < x" by auto
      from IH1 [OF True] s(1) have "sorted_wrt (<) s" by simp
      with gt s(1) have "sorted_wrt (<) (drop (length ans) a)" by simp
      with eq show ?thesis by simp
    next
      case False
      with call nf have call': "LowestFirst_choose_numbers ?new (roll - number) (ans @ [number])
           = Inr (False, ans @ [number])" by simp
      have eq: "LowestFirst_for (number # rest) nums roll ans = LowestFirst_for rest nums roll ans"
        by (rule LowestFirst_for_retract [OF \<open>\<not> number > roll\<close> mem fresh call'])
      have rm2: "list_remove number (ans @ [number]) = Inr ans"
        using fresh by (simp add: list_remove_def remove1_snoc_fresh)
      have inv': "\<forall>S. S \<subseteq> set nums \<and> \<Sum>S = roll \<longrightarrow> S \<subseteq> set rest"
      proof (intro allI impI)
        fix S assume S: "S \<subseteq> set nums \<and> \<Sum>S = roll"
        with inv have St: "S \<subseteq> set (number # rest)" by blast
        have "number \<notin> S"
        proof
          assume n: "number \<in> S"
          have "\<Sum>S = number + \<Sum>(S - {number})"
            using sum.remove [OF fin n, of "\<lambda>x. x"] S by simp
          with S have "\<Sum>(S - {number}) = roll - number" by simp
          moreover have "S - {number} \<subseteq> set ?new" using S new_set by auto
          ultimately show False using IH1' [OF False] by blast
        qed
        with St show "S \<subseteq> set rest" by auto
      qed
      from todo have todo': "sorted_wrt (<) rest" by simp
      from "3.IH"(2) [OF le rm call' refl not_False_eq_True [THEN iffD2, OF TrueI] rm2
                         sorted pos disj0 todo' rest nz inv']
      show ?thesis unfolding eq by simp
    qed
  qed
qed

lemma HighestFirst_for_Nil: "HighestFirst_for [] nums roll ans = Inr (False, ans)"
  by (simp add: HighestFirst_for_unfold)

lemma HighestFirst_for_skip:
  "number > roll \<Longrightarrow>
   HighestFirst_for (number # rest) nums roll ans = HighestFirst_for rest nums roll ans"
  by (simp add: HighestFirst_for_unfold)

lemma HighestFirst_for_found:
  assumes "\<not> number > roll" "number \<in> set nums"
    and "HighestFirst_choose_numbers (remove1 number nums) (roll - number) (ans @ [number])
           = Inr (True, a)"
  shows "HighestFirst_for (number # rest) nums roll ans = Inr (True, a)"
  using assms by (simp add: HighestFirst_for_unfold list_remove_def)

lemma HighestFirst_for_retract:
  assumes "\<not> number > roll" "number \<in> set nums" "number \<notin> set ans"
    and "HighestFirst_choose_numbers (remove1 number nums) (roll - number) (ans @ [number])
           = Inr (False, ans @ [number])"
  shows "HighestFirst_for (number # rest) nums roll ans = HighestFirst_for rest nums roll ans"
  using assms by (simp add: HighestFirst_for_unfold list_remove_def remove1_snoc_fresh)

lemma HighestFirst_search:
  shows "distinct nums \<Longrightarrow> set ans \<inter> set nums = {} \<Longrightarrow>
         \<exists>found a. HighestFirst_choose_numbers nums roll ans = Inr (found, a) \<and>
           (\<not> found \<longrightarrow> a = ans) \<and>
           (found \<longrightarrow> (\<exists>s. a = ans @ s \<and> set s \<subseteq> set nums \<and> distinct s \<and> sum_list s = roll))"
    and "distinct nums \<Longrightarrow> set ans \<inter> set nums = {} \<Longrightarrow> set todo \<subseteq> set nums \<Longrightarrow>
         \<exists>found a. HighestFirst_for todo nums roll ans = Inr (found, a) \<and>
           (\<not> found \<longrightarrow> a = ans) \<and>
           (found \<longrightarrow> (\<exists>s. a = ans @ s \<and> set s \<subseteq> set nums \<and> distinct s \<and> sum_list s = roll))"
proof (induction nums roll ans and todo nums roll ans
        rule: HighestFirst_choose_numbers_HighestFirst_for.induct)
  case (1 nums roll ans)
  show ?case
  proof (cases "roll = 0")
    case True
    then have "HighestFirst_choose_numbers nums roll ans = Inr (True, ans)"
      by (simp add: HighestFirst_choose_numbers_unfold)
    with True show ?thesis by auto
  next
    case False
    let ?sorted = "rev (sort nums)"
    have "distinct ?sorted" "set ans \<inter> set ?sorted = {}" "set ?sorted \<subseteq> set ?sorted"
      using "1.prems" by simp_all
    from "1.IH" [OF False refl this] False show ?thesis
      by (simp add: HighestFirst_choose_numbers_unfold Let_def)
  qed
next
  case (2 nums roll ans)
  show ?case by (auto simp: HighestFirst_for_Nil)
next
  case (3 number rest nums roll ans)
  from "3.prems" have mem: "number \<in> set nums" and fresh: "number \<notin> set ans"
    and rest: "set rest \<subseteq> set nums" by auto
  show ?case
  proof (cases "number > roll")
    case True
    then have lt: "roll < number" by simp
    from "3.IH"(1) [OF lt "3.prems"(1,2) rest] True show ?thesis
      by (simp add: HighestFirst_for_skip)
  next
    case False
    then have le: "\<not> roll < number" by simp
    let ?new = "remove1 number nums"
    have rm: "list_remove number nums = Inr ?new"
      using mem by (simp add: list_remove_def)
    have d: "distinct ?new" using "3.prems"(1) by simp
    have new_set: "set ?new = set nums - {number}"
      using "3.prems"(1) by simp
    have disj: "set (ans @ [number]) \<inter> set ?new = {}"
      using "3.prems"(2) new_set by auto
    from "3.IH"(2) [OF le rm d disj]
    obtain found a where call: "HighestFirst_choose_numbers ?new (roll - number) (ans @ [number]) = Inr (found, a)"
      and nf: "\<not> found \<Longrightarrow> a = ans @ [number]"
      and f: "found \<Longrightarrow> \<exists>s. a = (ans @ [number]) @ s \<and> set s \<subseteq> set ?new \<and> distinct s \<and> sum_list s = roll - number"
      by blast
    show ?thesis
    proof (cases found)
      case True
      with call have eq: "HighestFirst_for (number # rest) nums roll ans = Inr (True, a)"
        using HighestFirst_for_found [OF False mem] by simp
      from f [OF True] obtain s where s: "a = (ans @ [number]) @ s" "set s \<subseteq> set ?new"
        "distinct s" "sum_list s = roll - number" by blast
      have "a = ans @ (number # s) \<and> set (number # s) \<subseteq> set nums \<and> distinct (number # s)
            \<and> sum_list (number # s) = roll"
        using s mem new_set by auto
      with eq show ?thesis by blast
    next
      case False
      with call nf have call': "HighestFirst_choose_numbers ?new (roll - number) (ans @ [number])
           = Inr (False, ans @ [number])" by simp
      have eq: "HighestFirst_for (number # rest) nums roll ans = HighestFirst_for rest nums roll ans"
        by (rule HighestFirst_for_retract [OF \<open>\<not> number > roll\<close> mem fresh call'])
      have rm2: "list_remove number (ans @ [number]) = Inr ans"
        using fresh by (simp add: list_remove_def remove1_snoc_fresh)
      from "3.IH"(3) [OF le rm call' refl not_False_eq_True [THEN iffD2, OF TrueI] rm2 "3.prems"(1,2) rest]
      show ?thesis unfolding eq by simp
    qed
  qed
qed

lemma strict_descending_rev_sort:
  "distinct (xs :: int list) \<Longrightarrow> sorted_wrt (>) (rev (sort xs))"
proof -
  assume "distinct xs"
  then have "sorted_wrt (<) (sort xs)" by (simp add: strict_sorted_iff)
  then show ?thesis by (simp add: sorted_wrt_rev)
qed

lemma HighestFirst_complete:
  shows "distinct nums \<Longrightarrow> \<forall>n \<in> set nums. 0 < n \<Longrightarrow> set ans \<inter> set nums = {} \<Longrightarrow>
         \<forall>found a. HighestFirst_choose_numbers nums roll ans = Inr (found, a) \<longrightarrow>
           (found \<longrightarrow> sorted_wrt (>) (drop (length ans) a)) \<and>
           (\<not> found \<longrightarrow> (\<forall>S. S \<subseteq> set nums \<longrightarrow> \<Sum>S \<noteq> roll))"
    and "distinct nums \<Longrightarrow> \<forall>n \<in> set nums. 0 < n \<Longrightarrow> set ans \<inter> set nums = {} \<Longrightarrow>
         sorted_wrt (>) todo \<Longrightarrow> set todo \<subseteq> set nums \<Longrightarrow> roll \<noteq> 0 \<Longrightarrow>
         \<forall>S. S \<subseteq> set nums \<and> \<Sum>S = roll \<longrightarrow> S \<subseteq> set todo \<Longrightarrow>
         \<forall>found a. HighestFirst_for todo nums roll ans = Inr (found, a) \<longrightarrow>
           (found \<longrightarrow> sorted_wrt (>) (drop (length ans) a)) \<and>
           (\<not> found \<longrightarrow> (\<forall>S. S \<subseteq> set nums \<longrightarrow> \<Sum>S \<noteq> roll))"
proof (induction nums roll ans and todo nums roll ans
        rule: HighestFirst_choose_numbers_HighestFirst_for.induct)
  case (1 nums roll ans)
  show ?case
  proof (cases "roll = 0")
    case True
    then show ?thesis by (simp add: HighestFirst_choose_numbers_unfold)
  next
    case False
    let ?sorted = "rev (sort nums)"
    have p: "distinct ?sorted" "\<forall>n \<in> set ?sorted. 0 < n" "set ans \<inter> set ?sorted = {}"
      "sorted_wrt (>) ?sorted" "set ?sorted \<subseteq> set ?sorted"
      using "1.prems" strict_descending_rev_sort [of nums] by simp_all
    have "\<forall>S. S \<subseteq> set ?sorted \<and> \<Sum>S = roll \<longrightarrow> S \<subseteq> set ?sorted" by simp
    from "1.IH" [OF False refl p False this] False
    show ?thesis
      by (simp add: HighestFirst_choose_numbers_unfold Let_def)
  qed
next
  case (2 nums roll ans)
  have "\<And>S. S \<subseteq> set nums \<Longrightarrow> \<Sum>S \<noteq> roll"
  proof
    fix S assume "S \<subseteq> set nums" "\<Sum>S = roll"
    with "2.prems"(7) have "S = {}" by simp
    with \<open>\<Sum>S = roll\<close> "2.prems"(6) show False by simp
  qed
  then show ?case by (simp add: HighestFirst_for_Nil)
next
  case (3 number rest nums roll ans)
  note dist = "3.prems"(1) and pos = "3.prems"(2) and disj0 = "3.prems"(3)
    and todo = "3.prems"(4) and sub = "3.prems"(5) and nz = "3.prems"(6) and inv = "3.prems"(7)
  have fin: "\<And>S. S \<subseteq> set nums \<Longrightarrow> finite S"
    by (rule finite_subset) auto
  from sub disj0 have mem: "number \<in> set nums" and fresh: "number \<notin> set ans"
    and rest: "set rest \<subseteq> set nums" by auto
  from todo have todo': "sorted_wrt (>) rest" by simp
  show ?case
  proof (cases "number > roll")
    case True
    then have lt: "roll < number" by simp
    have inv': "\<forall>S. S \<subseteq> set nums \<and> \<Sum>S = roll \<longrightarrow> S \<subseteq> set rest"
    proof (intro allI impI)
      fix S assume S: "S \<subseteq> set nums \<and> \<Sum>S = roll"
      with inv have St: "S \<subseteq> set (number # rest)" by blast
      have "number \<notin> S"
      proof
        assume n: "number \<in> S"
        have "number \<le> \<Sum>S"
          using sum_pos_member_le [OF fin _ n] pos S by blast
        with True S show False by simp
      qed
      with St show "S \<subseteq> set rest" by auto
    qed
    from "3.IH"(1) [OF lt dist pos disj0 todo' rest nz inv'] True show ?thesis
      by (simp add: HighestFirst_for_skip)
  next
    case False
    then have le: "\<not> roll < number" by simp
    let ?new = "remove1 number nums"
    have rm: "list_remove number nums = Inr ?new"
      using mem by (simp add: list_remove_def)
    have new_dist: "distinct ?new" using dist by simp
    have new_set: "set ?new = set nums - {number}"
      using dist by simp
    have new_pos: "\<forall>n \<in> set ?new. 0 < n" using pos new_set by simp
    have disj: "set (ans @ [number]) \<inter> set ?new = {}"
      using disj0 new_set by auto
    from HighestFirst_search(1) [of ?new "ans @ [number]" "roll - number"] new_dist disj
    obtain found a where call: "HighestFirst_choose_numbers ?new (roll - number) (ans @ [number]) = Inr (found, a)"
      and nf: "\<not> found \<Longrightarrow> a = ans @ [number]"
      and f: "found \<Longrightarrow> \<exists>s. a = (ans @ [number]) @ s \<and> set s \<subseteq> set ?new \<and> distinct s \<and> sum_list s = roll - number"
      by auto
    from "3.IH"(2) [OF le rm new_dist new_pos disj] call
    have IH1: "found \<Longrightarrow> sorted_wrt (>) (drop (length (ans @ [number])) a)"
      and IH1': "\<not> found \<Longrightarrow> \<forall>S. S \<subseteq> set ?new \<longrightarrow> \<Sum>S \<noteq> roll - number"
      by blast+
    show ?thesis
    proof (cases found)
      case True
      with call have eq: "HighestFirst_for (number # rest) nums roll ans = Inr (True, a)"
        using HighestFirst_for_found [OF False mem] by simp
      from f [OF True] obtain s where s: "a = (ans @ [number]) @ s" "set s \<subseteq> set ?new"
        "distinct s" "sum_list s = roll - number" by blast
      from s(2) new_set have ns: "number \<notin> set s" and ss: "set s \<subseteq> set nums" by auto
      have "\<Sum>(insert number (set s)) = roll"
        using sum_insert_list [OF s(3) ns] s(4) by simp
      moreover have "insert number (set s) \<subseteq> set nums" using mem ss by simp
      ultimately have "insert number (set s) \<subseteq> set (number # rest)" using inv by blast
      with ns have "set s \<subseteq> set rest" by auto
      with todo have gt: "\<forall>x \<in> set s. x < number" by auto
      from IH1 [OF True] s(1) have "sorted_wrt (>) s" by simp
      with gt s(1) have "sorted_wrt (>) (drop (length ans) a)" by simp
      with eq show ?thesis by simp
    next
      case False
      with call nf have call': "HighestFirst_choose_numbers ?new (roll - number) (ans @ [number])
           = Inr (False, ans @ [number])" by simp
      have eq: "HighestFirst_for (number # rest) nums roll ans = HighestFirst_for rest nums roll ans"
        by (rule HighestFirst_for_retract [OF \<open>\<not> number > roll\<close> mem fresh call'])
      have rm2: "list_remove number (ans @ [number]) = Inr ans"
        using fresh by (simp add: list_remove_def remove1_snoc_fresh)
      have inv': "\<forall>S. S \<subseteq> set nums \<and> \<Sum>S = roll \<longrightarrow> S \<subseteq> set rest"
      proof (intro allI impI)
        fix S assume S: "S \<subseteq> set nums \<and> \<Sum>S = roll"
        with inv have St: "S \<subseteq> set (number # rest)" by blast
        have "number \<notin> S"
        proof
          assume n: "number \<in> S"
          have "\<Sum>S = number + \<Sum>(S - {number})"
            using sum.remove [OF fin n, of "\<lambda>x. x"] S by simp
          with S have "\<Sum>(S - {number}) = roll - number" by simp
          moreover have "S - {number} \<subseteq> set ?new" using S new_set by auto
          ultimately show False using IH1' [OF False] by blast
        qed
        with St show "S \<subseteq> set rest" by auto
      qed
      from "3.IH"(3) [OF le rm call' refl not_False_eq_True [THEN iffD2, OF TrueI] rm2
                         dist pos disj0 todo' rest nz inv']
      show ?thesis unfolding eq by simp
    qed
  qed
qed

section \<open>Properties of the strategies\<close>

lemma find_all_solutions_member:
  assumes "\<forall>n \<in> set nums. 0 < n" "subseq s nums" "sum_list s = roll"
  shows "s \<in> set (find_all_solutions nums roll)"
  using assms by (simp add: set_find_all_solutions)

lemma find_all_solutions_sorted_member:
  assumes "\<forall>n \<in> set nums. 0 < n" "sorted nums" "sorted_wrt (<) s" "set s \<subseteq> set nums"
    "sum_list s = roll"
  shows "s \<in> set (find_all_solutions nums roll)"
proof -
  have "subseq s nums"
    using assms(4,3,2) by (rule sorted_subset_imp_subseq)
  with assms(1) show ?thesis using assms(5) by (rule find_all_solutions_member)
qed

lemma find_all_solutions_rearranged_member:
  assumes "\<forall>n \<in> set nums. 0 < n" "distinct nums" "distinct s" "set s \<subseteq> set nums"
    "sum_list s = roll"
  shows "\<exists>t \<in> set (find_all_solutions nums roll). mset t = mset s"
proof -
  from assms(4) obtain t where t: "t \<in> set (subseqs nums)" "set t = set s"
    using subset_subseqs [of "set s" nums] by auto
  then have sub: "subseq t nums" by simp
  then have dt: "distinct t" using assms(2) by (rule subseq_distinct)
  with assms(3) t(2) have m: "mset t = mset s"
    by (simp add: set_eq_iff_mset_eq_distinct)
  then have "sum_list t = sum_list s"
    by (metis sum_mset_sum_list)
  with assms(5) sub have "t \<in> set (find_all_solutions nums roll)"
    using find_all_solutions_member [OF assms(1)] by simp
  with m show ?thesis by blast
qed

lemma find_all_solutions_empty:
  assumes "\<forall>n \<in> set nums. 0 < n" "distinct nums" "\<forall>S. S \<subseteq> set nums \<longrightarrow> \<Sum>S \<noteq> roll"
  shows "find_all_solutions nums roll = []"
proof (rule ccontr)
  assume "find_all_solutions nums roll \<noteq> []"
  then obtain t where "t \<in> set (find_all_solutions nums roll)"
    by (cases "find_all_solutions nums roll") auto
  then have t: "subseq t nums" "sum_list t = roll"
    by (simp_all add: set_find_all_solutions [OF assms(1)])
  from t(1) assms(2) have "distinct t" by (rule subseq_distinct)
  then have "\<Sum>(set t) = roll"
    using sum_list_distinct_conv_sum_set [of t "\<lambda>x. x"] t(2) by simp
  moreover have "set t \<subseteq> set nums" using t(1) by (rule subseq_set_subset)
  ultimately show False using assms(3) by blast
qed

lemma LowestFirst_validity:
  assumes "NumberSet nums" "0 < roll"
  shows "\<exists>found a. LowestFirst_choose_numbers nums roll [] = Inr (found, a) \<and>
           (a \<noteq> [] \<longrightarrow> (\<exists>t \<in> set (find_all_solutions nums roll). mset t = mset a)) \<and>
           (sorted nums \<longrightarrow>
              (a \<noteq> [] \<longrightarrow> a \<in> set (find_all_solutions nums roll)) \<and>
              (a = [] \<longrightarrow> find_all_solutions nums roll = []))"
proof -
  note pos = NumberSet_pos [OF assms(1)] and d = NumberSet_distinct [OF assms(1)]
  from LowestFirst_search(1) [of nums "[]" roll] d
  obtain found a where call: "LowestFirst_choose_numbers nums roll [] = Inr (found, a)"
    and nf: "\<not> found \<Longrightarrow> a = []"
    and f: "found \<Longrightarrow> set a \<subseteq> set nums \<and> distinct a \<and> sum_list a = roll"
    by auto
  have ne: "a \<noteq> []" if found
    using f [OF that] assms(2) by auto
  have up_to_order: "\<exists>t \<in> set (find_all_solutions nums roll). mset t = mset a" if "a \<noteq> []"
  proof -
    from that nf have found by blast
    from find_all_solutions_rearranged_member [OF pos d] f [OF this] show ?thesis by simp
  qed
  have ascending: "(a \<noteq> [] \<longrightarrow> a \<in> set (find_all_solutions nums roll)) \<and>
      (a = [] \<longrightarrow> find_all_solutions nums roll = [])" if srt: "sorted nums"
  proof -
    have ss: "sorted_wrt (<) nums" using srt d by (simp add: strict_sorted_iff)
    from LowestFirst_complete(1) [OF ss pos, of "[]" roll] call
    have asc: "found \<Longrightarrow> sorted_wrt (<) a"
      and none: "\<not> found \<Longrightarrow> \<forall>S. S \<subseteq> set nums \<longrightarrow> \<Sum>S \<noteq> roll"
      by auto
    show ?thesis
    proof (cases found)
      case True
      have "a \<in> set (find_all_solutions nums roll)"
        using find_all_solutions_sorted_member [OF pos srt asc [OF True]] f [OF True] by simp
      with ne [OF True] show ?thesis by simp
    next
      case False
      have "find_all_solutions nums roll = []"
        by (rule find_all_solutions_empty [OF pos d none [OF False]])
      with nf [OF False] show ?thesis by simp
    qed
  qed
  from call up_to_order ascending show ?thesis by blast
qed

lemma HighestFirst_validity:
  assumes "NumberSet nums" "0 < roll"
  shows "\<exists>found a. HighestFirst_choose_numbers nums roll [] = Inr (found, a) \<and>
           (a \<noteq> [] \<longrightarrow> (\<exists>t \<in> set (find_all_solutions nums roll). mset t = mset a)) \<and>
           sorted_wrt (>) a \<and>
           (sorted nums \<longrightarrow> a \<noteq> [] \<longrightarrow> rev a \<in> set (find_all_solutions nums roll)) \<and>
           (a = [] \<longrightarrow> find_all_solutions nums roll = [])"
proof -
  note pos = NumberSet_pos [OF assms(1)] and d = NumberSet_distinct [OF assms(1)]
  from HighestFirst_search(1) [of nums "[]" roll] d
  obtain found a where call: "HighestFirst_choose_numbers nums roll [] = Inr (found, a)"
    and nf: "\<not> found \<Longrightarrow> a = []"
    and f: "found \<Longrightarrow> set a \<subseteq> set nums \<and> distinct a \<and> sum_list a = roll"
    by auto
  from HighestFirst_complete(1) [OF d pos, of "[]" roll] call
  have desc: "found \<Longrightarrow> sorted_wrt (>) a"
    and none: "\<not> found \<Longrightarrow> \<forall>S. S \<subseteq> set nums \<longrightarrow> \<Sum>S \<noteq> roll"
    by auto
  show ?thesis
  proof (cases found)
    case True
    from f [OF True] assms(2) have ne: "a \<noteq> []" by auto
    have m: "\<exists>t \<in> set (find_all_solutions nums roll). mset t = mset a"
      using find_all_solutions_rearranged_member [OF pos d] f [OF True] by simp
    have r: "rev a \<in> set (find_all_solutions nums roll)" if srt: "sorted nums"
    proof -
      have "sorted_wrt (<) (rev a)" using desc [OF True] by (simp add: sorted_wrt_rev)
      from find_all_solutions_sorted_member [OF pos srt this] f [OF True]
      show ?thesis by (simp add: sum_list_rev)
    qed
    from call ne m r desc [OF True] show ?thesis by blast
  next
    case False
    have "find_all_solutions nums roll = []"
      by (rule find_all_solutions_empty [OF pos d none [OF False]])
    with call nf [OF False] show ?thesis by simp
  qed
qed

lemmas eval_simps = find_all_solutions_def recurse_unfold recurse_for_Cons_raw
  LowestFirst_choose_numbers_unfold LowestFirst_for_unfold
  HighestFirst_choose_numbers_unfold HighestFirst_for_unfold list_remove_def NumberSet_def

text \<open>
  C3 (greedy validity), as amended. For distinct numbers between 1 and 9, a roll greater
  than 0 and an empty answer before the call, both \<^verbatim>\<open>LowestFirst.choose_numbers\<close> and
  \<^verbatim>\<open>HighestFirst.choose_numbers\<close> return, and
  \<^item> an answer of either that is not empty is a member of \<open>find_all_solutions nums roll\<close> up
    to the order of its elements; \<^verbatim>\<open>HighestFirst\<close> lists them in descending order; on
    numbers in ascending order the answer of \<^verbatim>\<open>LowestFirst\<close> is itself a member, and so is
    the answer of \<^verbatim>\<open>HighestFirst\<close> reversed;
  \<^item> when the answer of \<^verbatim>\<open>HighestFirst\<close> is empty, \<open>find_all_solutions nums roll\<close> is empty;
  \<^item> when the answer of \<^verbatim>\<open>LowestFirst\<close> is empty and the numbers are in ascending order,
    \<open>find_all_solutions nums roll\<close> is empty.
  On numbers that are not in ascending order \<^verbatim>\<open>LowestFirst\<close> can give up although there
  is a solution: on \<open>[9, 1]\<close> with roll 1 it stops at 9 and leaves the answer empty, while
  \<open>[1]\<close> is a solution.
\<close>

theorem greedy_validity:
  assumes "NumberSet nums" and "0 < roll"
  shows "(\<exists>found a. LowestFirst_choose_numbers nums roll [] = Inr (found, a) \<and>
            (a \<noteq> [] \<longrightarrow> (\<exists>t \<in> set (find_all_solutions nums roll). mset t = mset a)) \<and>
            (sorted nums \<longrightarrow>
               (a \<noteq> [] \<longrightarrow> a \<in> set (find_all_solutions nums roll)) \<and>
               (a = [] \<longrightarrow> find_all_solutions nums roll = []))) \<and>
         (\<exists>found a. HighestFirst_choose_numbers nums roll [] = Inr (found, a) \<and>
            (a \<noteq> [] \<longrightarrow> (\<exists>t \<in> set (find_all_solutions nums roll). mset t = mset a)) \<and>
            sorted_wrt (>) a \<and>
            (sorted nums \<longrightarrow> a \<noteq> [] \<longrightarrow> rev a \<in> set (find_all_solutions nums roll)) \<and>
            (a = [] \<longrightarrow> find_all_solutions nums roll = []))"
  using LowestFirst_validity [OF assms] HighestFirst_validity [OF assms] by blast

theorem greedy_validity_counterexample:
  "NumberSet [9, 1] \<and> (0::int) < 1 \<and>
   LowestFirst_choose_numbers [9, 1] 1 [] = Inr (False, []) \<and>
   find_all_solutions [9, 1] 1 = [[1]]"
  by (simp add: eval_simps)

theorem greedy_validity_witness:
  "NumberSet [1, 2, 3, 4, 5, 6, 7, 8, 9] \<and> (0::int) < 12 \<and> sorted [1, 2, 3, 4, 5, 6, 7, 8, 9 :: int] \<and>
   LowestFirst_choose_numbers [1, 2, 3, 4, 5, 6, 7, 8, 9] 12 [] = Inr (True, [1, 2, 3, 6]) \<and>
   [1, 2, 3, 6] \<in> set (find_all_solutions [1, 2, 3, 4, 5, 6, 7, 8, 9] 12) \<and>
   HighestFirst_choose_numbers [1, 2, 3, 4, 5, 6, 7, 8, 9] 12 [] = Inr (True, [9, 3]) \<and>
   sorted_wrt (>) [9, 3 :: int] \<and>
   rev [9, 3] \<in> set (find_all_solutions [1, 2, 3, 4, 5, 6, 7, 8, 9] 12) \<and>
   (\<exists>t \<in> set (find_all_solutions [1, 2, 3, 4, 5, 6, 7, 8, 9] 12). mset t = mset [9, 3])"
proof -
  have h: "NumberSet [1, 2, 3, 4, 5, 6, 7, 8, 9]" by (simp add: NumberSet_def)
  have z: "(0::int) < 12" by simp
  have s: "sorted [1, 2, 3, 4, 5, 6, 7, 8, 9 :: int]" by simp
  have l: "LowestFirst_choose_numbers [1, 2, 3, 4, 5, 6, 7, 8, 9] 12 [] = Inr (True, [1, 2, 3, 6])"
    by (simp add: eval_simps)
  have u: "HighestFirst_choose_numbers [1, 2, 3, 4, 5, 6, 7, 8, 9] 12 [] = Inr (True, [9, 3])"
    by (simp add: eval_simps)
  from greedy_validity [OF h z] s l u
  have "[1, 2, 3, 6] \<in> set (find_all_solutions [1, 2, 3, 4, 5, 6, 7, 8, 9] 12) \<and>
        sorted_wrt (>) [9, 3 :: int] \<and>
        rev [9, 3] \<in> set (find_all_solutions [1, 2, 3, 4, 5, 6, 7, 8, 9] 12) \<and>
        (\<exists>t \<in> set (find_all_solutions [1, 2, 3, 4, 5, 6, 7, 8, 9] 12). mset t = mset [9, 3])"
    by auto
  with h z s l u show ?thesis by blast
qed

text \<open>
  C9 (backtracking atomicity), as amended. For distinct numbers between 1 and 9, any roll,
  and an answer before the call that contains none of the numbers (the empty answer at the
  start of a turn, and the answer at every recursive call of the search),
  \<^verbatim>\<open>LowestFirst.choose_numbers\<close> and \<^verbatim>\<open>HighestFirst.choose_numbers\<close> return, and when they
  return \<^verbatim>\<open>False\<close> the answer is what it was before the call. For an answer that already
  contains a candidate the statement fails, since \<^verbatim>\<open>self.answer.remove(number)\<close> deletes
  the first occurrence and not the one appended last: from \<open>[1, 5]\<close>, on numbers \<open>[1]\<close>
  and roll 2, the call returns \<^verbatim>\<open>False\<close> and leaves \<open>[5, 1]\<close>.
\<close>

theorem backtracking_atomicity:
  assumes "NumberSet nums" and "set ans \<inter> set nums = {}"
  shows "(\<exists>found a. LowestFirst_choose_numbers nums roll ans = Inr (found, a) \<and>
            (\<not> found \<longrightarrow> a = ans)) \<and>
         (\<exists>found a. HighestFirst_choose_numbers nums roll ans = Inr (found, a) \<and>
            (\<not> found \<longrightarrow> a = ans))"
proof -
  note d = NumberSet_distinct [OF assms(1)]
  from LowestFirst_search(1) [OF d assms(2), of roll]
  have "\<exists>found a. LowestFirst_choose_numbers nums roll ans = Inr (found, a) \<and>
            (\<not> found \<longrightarrow> a = ans)"
    by blast
  moreover from HighestFirst_search(1) [OF d assms(2), of roll]
  have "\<exists>found a. HighestFirst_choose_numbers nums roll ans = Inr (found, a) \<and>
            (\<not> found \<longrightarrow> a = ans)"
    by blast
  ultimately show ?thesis by blast
qed

theorem backtracking_atomicity_counterexample:
  "NumberSet [1] \<and> LowestFirst_choose_numbers [1] 2 [1, 5] = Inr (False, [5, 1]) \<and>
   HighestFirst_choose_numbers [1] 2 [1, 5] = Inr (False, [5, 1]) \<and> [5, 1] \<noteq> [1, 5 :: int]"
  by (simp add: eval_simps)

theorem backtracking_atomicity_witness:
  "NumberSet [2, 4, 6] \<and> set [9 :: int] \<inter> set [2, 4, 6] = {} \<and>
   LowestFirst_choose_numbers [2, 4, 6] 5 [9] = Inr (False, [9]) \<and>
   HighestFirst_choose_numbers [2, 4, 6] 5 [9] = Inr (False, [9])"
proof -
  have h: "NumberSet [2, 4, 6]" by (simp add: NumberSet_def)
  have i: "set [9 :: int] \<inter> set [2, 4, 6] = {}" by simp
  have l: "\<And>a. LowestFirst_choose_numbers [2, 4, 6] 5 [9] \<noteq> Inr (True, a)"
    by (simp add: eval_simps)
  have u: "\<And>a. HighestFirst_choose_numbers [2, 4, 6] 5 [9] \<noteq> Inr (True, a)"
    by (simp add: eval_simps)
  from backtracking_atomicity [OF h i, of 5] l u
  have "LowestFirst_choose_numbers [2, 4, 6] 5 [9] = Inr (False, [9]) \<and>
        HighestFirst_choose_numbers [2, 4, 6] 5 [9] = Inr (False, [9])"
    by (metis (full_types))
  with h i show ?thesis by blast
qed

text \<open>
  C5 (exact short-circuit). If the roll is one of the numbers, \<^verbatim>\<open>ExactThenLowest\<close> and
  \<^verbatim>\<open>ExactThenHighest\<close> turn the empty answer into the singleton \<open>[roll]\<close>; more
  generally they append the roll to the answer once and do nothing else, so no greedy
  search has run. On the numbers \<open>[2, 5, 9]\<close> with roll 5, calling the method on a new
  \<^verbatim>\<open>ExactThenLowest\<close> object leaves the answer \<open>[5]\<close>.
\<close>

theorem exact_short_circuit:
  assumes "roll \<in> set nums"
  shows "ExactThenLowest_choose_numbers nums roll [] = Inr [roll] \<and>
         ExactThenHighest_choose_numbers nums roll [] = Inr [roll] \<and>
         ExactThenLowest_choose_numbers nums roll ans = Inr (ans @ [roll]) \<and>
         ExactThenHighest_choose_numbers nums roll ans = Inr (ans @ [roll]) \<and>
         choose_numbers (new_strategy ExactThenLowest) [2, 5, 9] 5 rng =
           Inr (None, \<lparr>cls = ExactThenLowest, answer = [5]\<rparr>, rng)"
  using assms
  by (simp add: ExactThenLowest_choose_numbers_def ExactThenHighest_choose_numbers_def
        new_strategy_def)

theorem exact_short_circuit_witness:
  "(5::int) \<in> set [2, 5, 9] \<and>
   ExactThenLowest_choose_numbers [2, 5, 9] 5 [] = Inr [5] \<and>
   ExactThenHighest_choose_numbers [2, 5, 9] 5 [] = Inr [5]"
proof -
  have h: "(5::int) \<in> set [2, 5, 9]" by simp
  from exact_short_circuit [OF h] h show ?thesis by blast
qed

text \<open>
  C8 (abstract bases). For every list of numbers and every roll, \<^verbatim>\<open>choose_numbers\<close> on an
  object whose class is \<^verbatim>\<open>Strategy\<close> itself, or \<^verbatim>\<open>SolutionLength\<close> itself, raises
  \<^verbatim>\<open>NotImplementedError\<close> and produces no answer.
\<close>

theorem abstract_base_raises:
  "choose_numbers \<lparr>cls = Strategy, answer = ans\<rparr> nums roll rng = Inl NotImplementedError \<and>
   choose_numbers \<lparr>cls = SolutionLength secondary_strategy, answer = ans\<rparr> nums roll rng
     = Inl NotImplementedError"
  by simp

lemma py_min_Min: "xs \<noteq> [] \<Longrightarrow> py_min xs = Inr (Min (set xs))"
proof (cases xs)
  case Nil
  assume "xs \<noteq> []"
  with Nil show ?thesis by simp
next
  case (Cons x ys)
  have "Min (set (x # ys)) = fold min ys x" by (rule Min.set_eq_fold)
  with Cons show ?thesis by simp
qed

lemma py_max_Max: "xs \<noteq> [] \<Longrightarrow> py_max xs = Inr (Max (set xs))"
proof (cases xs)
  case Nil
  assume "xs \<noteq> []"
  with Nil show ?thesis by simp
next
  case (Cons x ys)
  have "Max (set (x # ys)) = fold max ys x" by (rule Max.set_eq_fold)
  with Cons show ?thesis by simp
qed

lemma key_values_Inr:
  "key_values key xs = Inr kxs \<Longrightarrow>
   map snd kxs = xs \<and> (\<forall>p \<in> set kxs. key (snd p) = Inr (fst p))"
proof (induction xs arbitrary: kxs)
  case Nil
  then show ?case by simp
next
  case (Cons x xs)
  then show ?case by (auto split: sum.splits)
qed

lemma key_values_defined:
  "\<forall>x \<in> set xs. \<exists>k. key x = Inr k \<Longrightarrow> \<exists>kxs. key_values key xs = Inr kxs"
  by (induction xs) auto

lemma key_values_raises:
  "x \<in> set xs \<Longrightarrow> key x = Inl e \<Longrightarrow> \<exists>e1. key_values key xs = Inl e1"
  by (induction xs) (auto split: sum.splits)

lemma py_sorted_Inr:
  assumes "py_sorted key xs = Inr ys"
  shows "set ys = set xs"
    and "ys = y # zs \<Longrightarrow> \<exists>k. key y = Inr k \<and> (\<forall>x \<in> set xs. \<forall>kx. key x = Inr kx \<longrightarrow> k \<le> kx)"
proof -
  from assms obtain kxs where kv: "key_values key xs = Inr kxs"
    and ys: "ys = map snd (sort_key fst kxs)"
    by (auto simp: py_sorted_def split: sum.splits)
  note K = key_values_Inr [OF kv]
  have "set ys = snd ` set kxs" using ys by simp
  also have "\<dots> = set (map snd kxs)" by simp
  finally show "set ys = set xs" using K by simp
  assume c: "ys = y # zs"
  then obtain p ps where p: "sort_key fst kxs = p # ps" "snd p = y"
    using ys by (cases "sort_key fst kxs") auto
  have "sorted (map fst (sort_key fst kxs))" by simp
  with p(1) have le: "\<forall>q \<in> set ps. fst p \<le> fst q" by simp
  have mem: "set (p # ps) = set kxs" using p(1) [symmetric] by simp
  then have "p \<in> set kxs" by auto
  with K p(2) have ky: "key y = Inr (fst p)" by auto
  have "\<forall>x \<in> set xs. \<forall>kx. key x = Inr kx \<longrightarrow> fst p \<le> kx"
  proof (intro ballI allI impI)
    fix x kx assume "x \<in> set xs" "key x = Inr kx"
    then obtain q where q: "q \<in> set kxs" "snd q = x"
      using K by (metis (no_types, lifting) imageE list.set_map)
    with K \<open>key x = Inr kx\<close> have "fst q = kx" by auto
    moreover from q(1) mem le have "fst p \<le> fst q" by auto
    ultimately show "fst p \<le> kx" by simp
  qed
  with ky show "\<exists>k. key y = Inr k \<and> (\<forall>x \<in> set xs. \<forall>kx. key x = Inr kx \<longrightarrow> k \<le> kx)"
    by blast
qed

lemma py_sorted_defined:
  "\<forall>x \<in> set xs. \<exists>k. key x = Inr k \<Longrightarrow> \<exists>ys. py_sorted key xs = Inr ys"
  using key_values_defined [of xs key] by (auto simp: py_sorted_def)

lemma py_sorted_raises:
  "x \<in> set xs \<Longrightarrow> key x = Inl e \<Longrightarrow> \<exists>e1. py_sorted key xs = Inl e1"
  using key_values_raises [of x xs key e] by (auto simp: py_sorted_def)

text \<open>
  The selection shared by the two classes, for the length \<open>m\<close> of some solution:
  the candidates are the solutions of length \<open>m\<close>.
\<close>

lemma extremal_selection_Inr:
  assumes "(case py_sorted key (filter (\<lambda>solution. length solution = m) sols) of
              Inl e \<Rightarrow> Inl e | Inr sorted_solutions \<Rightarrow> first_item sorted_solutions) = Inr a"
  shows "a \<in> set sols \<and> length a = m \<and>
         (\<exists>k. key a = Inr k \<and>
            (\<forall>s \<in> set sols. \<forall>ks. length s = length a \<and> key s = Inr ks \<longrightarrow> k \<le> ks))"
proof -
  let ?c = "filter (\<lambda>solution. length solution = m) sols"
  from assms obtain ys where ys: "py_sorted key ?c = Inr ys" "first_item ys = Inr a"
    by (auto split: sum.splits)
  from ys(2) obtain zs where c: "ys = a # zs" by (cases ys) auto
  from py_sorted_Inr(1) [OF ys(1)] c have "a \<in> set ?c" by auto
  moreover from py_sorted_Inr(2) [OF ys(1) c]
  obtain k where "key a = Inr k" "\<forall>x \<in> set ?c. \<forall>kx. key x = Inr kx \<longrightarrow> k \<le> kx"
    by blast
  ultimately show ?thesis by auto
qed

lemma extremal_selection_defined:
  assumes "m \<in> length ` set sols"
    and "\<forall>s \<in> set sols. length s = m \<longrightarrow> (\<exists>k. key s = Inr k)"
  shows "\<exists>a. (case py_sorted key (filter (\<lambda>solution. length solution = m) sols) of
              Inl e \<Rightarrow> Inl e | Inr sorted_solutions \<Rightarrow> first_item sorted_solutions) = Inr a"
proof -
  let ?c = "filter (\<lambda>solution. length solution = m) sols"
  from assms(2) have "\<forall>x \<in> set ?c. \<exists>k. key x = Inr k" by simp
  from py_sorted_defined [OF this] obtain ys where ys: "py_sorted key ?c = Inr ys" by blast
  from assms(1) have "set ?c \<noteq> {}" by auto
  with py_sorted_Inr(1) [OF ys] have "ys \<noteq> []" by auto
  then obtain a zs where "ys = a # zs" by (cases ys) auto
  with ys show ?thesis by simp
qed

lemma extremal_selection_raises:
  assumes "s \<in> set sols" "length s = m" "key s = Inl e"
  shows "\<exists>e1. (case py_sorted key (filter (\<lambda>solution. length solution = m) sols) of
              Inl e \<Rightarrow> Inl e | Inr sorted_solutions \<Rightarrow> first_item sorted_solutions) = Inl e1"
proof -
  from assms have "s \<in> set (filter (\<lambda>solution. length solution = m) sols)" by simp
  from py_sorted_raises [of s _ key e, OF this assms(3)] show ?thesis by auto
qed

lemma FewestNumbers_unfold:
  assumes "find_all_solutions nums roll \<noteq> []"
  shows "FewestNumbers_choose_numbers key nums roll ans =
           (case py_sorted key (filter (\<lambda>solution. length solution =
                     Min (length ` set (find_all_solutions nums roll)))
                   (find_all_solutions nums roll)) of
              Inl e \<Rightarrow> Inl e | Inr sorted_solutions \<Rightarrow> first_item sorted_solutions)"
  using assms py_min_Min [of "map length (find_all_solutions nums roll)"]
  by (simp add: FewestNumbers_choose_numbers_def Let_def)

lemma MostNumbers_unfold:
  assumes "find_all_solutions nums roll \<noteq> []"
  shows "MostNumbers_choose_numbers key nums roll ans =
           (case py_sorted key (filter (\<lambda>solution. length solution =
                     Max (length ` set (find_all_solutions nums roll)))
                   (find_all_solutions nums roll)) of
              Inl e \<Rightarrow> Inl e | Inr sorted_solutions \<Rightarrow> first_item sorted_solutions)"
  using assms py_max_Max [of "map length (find_all_solutions nums roll)"]
  by (simp add: MostNumbers_choose_numbers_def Let_def)

lemma Min_length_in:
  "sols \<noteq> [] \<Longrightarrow> Min (length ` set sols) \<in> length ` set sols"
  by (intro Min_in) auto

lemma Max_length_in:
  "sols \<noteq> [] \<Longrightarrow> Max (length ` set sols) \<in> length ` set sols"
  by (intro Max_in) auto

lemma solutions_nonempty:
  assumes "NumberSet nums" "roll \<noteq> 0" "s \<in> set (find_all_solutions nums roll)"
  shows "s \<noteq> []"
  using assms set_find_all_solutions [OF NumberSet_pos [OF assms(1)], of roll] by auto

lemma py_min_defined: "s \<noteq> [] \<Longrightarrow> \<exists>k. py_min s = Inr k"
  by (cases s) auto

lemma neg_max_defined: "s \<noteq> [] \<Longrightarrow> \<exists>k. neg_max s = Inr k"
  by (cases s) (auto simp: neg_max_def)

lemmas selection_eval_simps = FewestNumbers_choose_numbers_def MostNumbers_choose_numbers_def
  py_sorted_def neg_max_def

text \<open>
  C6 (length-extremal selection), as amended. Let \<open>find_all_solutions nums roll\<close> be not
  empty. If \<^verbatim>\<open>secondary_strategy\<close> returns a value on every solution found of minimum
  length, \<^verbatim>\<open>FewestNumbers.choose_numbers\<close> sets the answer to a solution found of minimum
  length, and no solution of that length has a smaller \<^verbatim>\<open>secondary_strategy\<close> value; if
  \<^verbatim>\<open>secondary_strategy\<close> raises on a solution found of minimum length, the method raises
  and sets no answer. The same holds of \<^verbatim>\<open>MostNumbers.choose_numbers\<close> with the maximum
  length. When \<open>find_all_solutions nums roll\<close> is empty, both leave the answer as it was.
  For distinct numbers between 1 and 9 and a roll other than 0 no solution found is empty,
  so that \<^verbatim>\<open>min\<close> and \<^verbatim>\<open>lambda x: -1 * max(x)\<close> return a value on each of them.
\<close>

theorem length_extremal_selection:
  "(find_all_solutions nums roll \<noteq> [] \<longrightarrow>
      ((\<forall>s \<in> set (find_all_solutions nums roll).
           length s = Min (length ` set (find_all_solutions nums roll)) \<longrightarrow>
           (\<exists>k. secondary_strategy s = Inr k)) \<longrightarrow>
       (\<exists>a k. FewestNumbers_choose_numbers secondary_strategy nums roll ans = Inr a \<and>
              a \<in> set (find_all_solutions nums roll) \<and>
              length a = Min (length ` set (find_all_solutions nums roll)) \<and>
              secondary_strategy a = Inr k \<and>
              (\<forall>s \<in> set (find_all_solutions nums roll). \<forall>ks.
                  length s = length a \<and> secondary_strategy s = Inr ks \<longrightarrow> k \<le> ks))) \<and>
      ((\<exists>s \<in> set (find_all_solutions nums roll).
           length s = Min (length ` set (find_all_solutions nums roll)) \<and>
           (\<exists>e. secondary_strategy s = Inl e)) \<longrightarrow>
       (\<exists>e. FewestNumbers_choose_numbers secondary_strategy nums roll ans = Inl e)) \<and>
      ((\<forall>s \<in> set (find_all_solutions nums roll).
           length s = Max (length ` set (find_all_solutions nums roll)) \<longrightarrow>
           (\<exists>k. secondary_strategy s = Inr k)) \<longrightarrow>
       (\<exists>a k. MostNumbers_choose_numbers secondary_strategy nums roll ans = Inr a \<and>
              a \<in> set (find_all_solutions nums roll) \<and>
              length a = Max (length ` set (find_all_solutions nums roll)) \<and>
              secondary_strategy a = Inr k \<and>
              (\<forall>s \<in> set (find_all_solutions nums roll). \<forall>ks.
                  length s = length a \<and> secondary_strategy s = Inr ks \<longrightarrow> k \<le> ks))) \<and>
      ((\<exists>s \<in> set (find_all_solutions nums roll).
           length s = Max (length ` set (find_all_solutions nums roll)) \<and>
           (\<exists>e. secondary_strategy s = Inl e)) \<longrightarrow>
       (\<exists>e. MostNumbers_choose_numbers secondary_strategy nums roll ans = Inl e))) \<and>
   (find_all_solutions nums roll = [] \<longrightarrow>
      FewestNumbers_choose_numbers secondary_strategy nums roll ans = Inr ans \<and>
      MostNumbers_choose_numbers secondary_strategy nums roll ans = Inr ans) \<and>
   (NumberSet nums \<and> roll \<noteq> 0 \<longrightarrow>
      (\<forall>s \<in> set (find_all_solutions nums roll).
          (\<exists>k. py_min s = Inr k) \<and> (\<exists>k. neg_max s = Inr k)))"
proof -
  let ?sols = "find_all_solutions nums roll"
  let ?f = secondary_strategy
  have fewest_ok: "\<exists>a k. FewestNumbers_choose_numbers ?f nums roll ans = Inr a \<and> a \<in> set ?sols \<and>
              length a = Min (length ` set ?sols) \<and> ?f a = Inr k \<and>
              (\<forall>s \<in> set ?sols. \<forall>ks. length s = length a \<and> ?f s = Inr ks \<longrightarrow> k \<le> ks)"
    if ne: "?sols \<noteq> []"
      and ok: "\<forall>s \<in> set ?sols. length s = Min (length ` set ?sols) \<longrightarrow> (\<exists>k. ?f s = Inr k)"
  proof -
    from extremal_selection_defined [OF Min_length_in [OF ne] ok]
    obtain a where a: "FewestNumbers_choose_numbers ?f nums roll ans = Inr a"
      unfolding FewestNumbers_unfold [OF ne] by blast
    from extremal_selection_Inr [OF a [unfolded FewestNumbers_unfold [OF ne]]] a
    show ?thesis by blast
  qed
  have most_ok: "\<exists>a k. MostNumbers_choose_numbers ?f nums roll ans = Inr a \<and> a \<in> set ?sols \<and>
              length a = Max (length ` set ?sols) \<and> ?f a = Inr k \<and>
              (\<forall>s \<in> set ?sols. \<forall>ks. length s = length a \<and> ?f s = Inr ks \<longrightarrow> k \<le> ks)"
    if ne: "?sols \<noteq> []"
      and ok: "\<forall>s \<in> set ?sols. length s = Max (length ` set ?sols) \<longrightarrow> (\<exists>k. ?f s = Inr k)"
  proof -
    from extremal_selection_defined [OF Max_length_in [OF ne] ok]
    obtain a where a: "MostNumbers_choose_numbers ?f nums roll ans = Inr a"
      unfolding MostNumbers_unfold [OF ne] by blast
    from extremal_selection_Inr [OF a [unfolded MostNumbers_unfold [OF ne]]] a
    show ?thesis by blast
  qed
  have fewest_raises: "\<exists>e. FewestNumbers_choose_numbers ?f nums roll ans = Inl e"
    if ne: "?sols \<noteq> []"
      and bad: "\<exists>s \<in> set ?sols. length s = Min (length ` set ?sols) \<and> (\<exists>e. ?f s = Inl e)"
  proof -
    from bad obtain s e where "s \<in> set ?sols" "length s = Min (length ` set ?sols)" "?f s = Inl e"
      by blast
    from extremal_selection_raises [of s ?sols _ ?f e, OF this] show ?thesis
      unfolding FewestNumbers_unfold [OF ne] .
  qed
  have most_raises: "\<exists>e. MostNumbers_choose_numbers ?f nums roll ans = Inl e"
    if ne: "?sols \<noteq> []"
      and bad: "\<exists>s \<in> set ?sols. length s = Max (length ` set ?sols) \<and> (\<exists>e. ?f s = Inl e)"
  proof -
    from bad obtain s e where "s \<in> set ?sols" "length s = Max (length ` set ?sols)" "?f s = Inl e"
      by blast
    from extremal_selection_raises [of s ?sols _ ?f e, OF this] show ?thesis
      unfolding MostNumbers_unfold [OF ne] .
  qed
  have unchanged: "FewestNumbers_choose_numbers ?f nums roll ans = Inr ans \<and>
      MostNumbers_choose_numbers ?f nums roll ans = Inr ans" if "?sols = []"
    using that by (simp add: FewestNumbers_choose_numbers_def MostNumbers_choose_numbers_def)
  have keys: "\<forall>s \<in> set ?sols. (\<exists>k. py_min s = Inr k) \<and> (\<exists>k. neg_max s = Inr k)"
    if "NumberSet nums \<and> roll \<noteq> 0"
    using that solutions_nonempty [of nums roll] py_min_defined neg_max_defined by blast
  from fewest_ok most_ok fewest_raises most_raises unchanged keys show ?thesis
    by blast
qed

theorem length_extremal_selection_counterexample:
  "NumberSet [1, 2, 3, 4, 5, 6, 7, 8, 9] \<and>
   find_all_solutions [1, 2, 3, 4, 5, 6, 7, 8, 9] 0 = [[]] \<and>
   FewestNumbers_choose_numbers py_min [1, 2, 3, 4, 5, 6, 7, 8, 9] 0 [] = Inl ValueError \<and>
   MostNumbers_choose_numbers py_min [1, 2, 3, 4, 5, 6, 7, 8, 9] 0 [] = Inl ValueError \<and>
   FewestNumbers_choose_numbers neg_max [1, 2, 3, 4, 5, 6, 7, 8, 9] 0 [] = Inl ValueError \<and>
   MostNumbers_choose_numbers neg_max [1, 2, 3, 4, 5, 6, 7, 8, 9] 0 [] = Inl ValueError"
  by (simp add: eval_simps selection_eval_simps)

theorem length_extremal_selection_witness:
  "NumberSet [1, 2, 3, 4, 5] \<and> (6::int) \<noteq> 0 \<and>
   find_all_solutions [1, 2, 3, 4, 5] 6 \<noteq> [] \<and>
   FewestNumbers_choose_numbers py_min [1, 2, 3, 4, 5] 6 [] = Inr [1, 5] \<and>
   length [1, 5 :: int] = Min (length ` set (find_all_solutions [1, 2, 3, 4, 5] 6)) \<and>
   MostNumbers_choose_numbers py_min [1, 2, 3, 4, 5] 6 [] = Inr [1, 2, 3] \<and>
   length [1, 2, 3 :: int] = Max (length ` set (find_all_solutions [1, 2, 3, 4, 5] 6)) \<and>
   find_all_solutions [1, 2, 3] 0 \<noteq> [] \<and> [] \<in> set (find_all_solutions [1, 2, 3] 0) \<and>
   py_min ([] :: int list) = Inl ValueError \<and>
   (\<exists>e. FewestNumbers_choose_numbers py_min [1, 2, 3] 0 [] = Inl e) \<and>
   find_all_solutions [5] 6 = [] \<and>
   FewestNumbers_choose_numbers py_min [5] 6 [] = Inr [] \<and>
   MostNumbers_choose_numbers py_min [5] 6 [] = Inr []"
proof -
  have h: "NumberSet [1, 2, 3, 4, 5]" by (simp add: NumberSet_def)
  have z: "(6::int) \<noteq> 0" by simp
  have s: "find_all_solutions [1, 2, 3, 4, 5] 6 = [[1, 2, 3], [1, 5], [2, 4]]"
    by (simp add: eval_simps)
  then have ne: "find_all_solutions [1, 2, 3, 4, 5] 6 \<noteq> []" by simp
  have f: "FewestNumbers_choose_numbers py_min [1, 2, 3, 4, 5] 6 [] = Inr [1, 5]"
    by (simp add: selection_eval_simps s)
  have m: "MostNumbers_choose_numbers py_min [1, 2, 3, 4, 5] 6 [] = Inr [1, 2, 3]"
    by (simp add: selection_eval_simps s)
  have s0: "find_all_solutions [1, 2, 3] 0 = [[]]"
    by (simp add: eval_simps)
  then have ne0: "find_all_solutions [1, 2, 3] 0 \<noteq> []"
    and in0: "[] \<in> set (find_all_solutions [1, 2, 3] 0)" by simp_all
  have len0: "length ([] :: int list) = Min (length ` set (find_all_solutions [1, 2, 3] 0))"
    by (simp add: s0)
  have p0: "py_min ([] :: int list) = Inl ValueError" by simp
  have e: "find_all_solutions [5] 6 = []"
    by (simp add: eval_simps)
  note t1 = length_extremal_selection [of "[1, 2, 3, 4, 5]" 6 py_min "[]"]
  note t0 = length_extremal_selection [of "[1, 2, 3]" 0 py_min "[]"]
  note t2 = length_extremal_selection [of "[5]" 6 py_min "[]"]
  from t1 h z have keys: "\<forall>s \<in> set (find_all_solutions [1, 2, 3, 4, 5] 6). \<exists>k. py_min s = Inr k"
    by blast
  from t1 ne keys f have l1: "length [1, 5 :: int] = Min (length ` set (find_all_solutions [1, 2, 3, 4, 5] 6))"
    by auto
  from t1 ne keys m have l2: "length [1, 2, 3 :: int] = Max (length ` set (find_all_solutions [1, 2, 3, 4, 5] 6))"
    by auto
  from t0 ne0 in0 len0 p0 have r0: "\<exists>e. FewestNumbers_choose_numbers py_min [1, 2, 3] 0 [] = Inl e"
    by blast
  from t2 e have l3: "FewestNumbers_choose_numbers py_min [5] 6 [] = Inr [] \<and>
      MostNumbers_choose_numbers py_min [5] 6 [] = Inr []"
    by blast
  from h z ne f m e l1 l2 l3 ne0 in0 p0 r0 show ?thesis by blast
qed

lemma find_all_solutions_valid:
  assumes "NumberSet nums" "s \<in> set (find_all_solutions nums roll)"
  shows "set s \<subseteq> set nums \<and> distinct s \<and> sum_list s = roll"
proof -
  note pos = NumberSet_pos [OF assms(1)] and d = NumberSet_distinct [OF assms(1)]
  from assms(2) have "subseq s nums" "sum_list s = roll"
    by (simp_all add: set_find_all_solutions [OF pos])
  then show ?thesis
    using subseq_set_subset [of s nums] subseq_distinct [OF _ d] by simp
qed

lemma LowestFirst_answer_valid:
  assumes "NumberSet nums"
  shows "\<exists>found a. LowestFirst_choose_numbers nums roll [] = Inr (found, a) \<and>
           (a \<noteq> [] \<longrightarrow> set a \<subseteq> set nums \<and> distinct a \<and> sum_list a = roll)"
proof -
  from LowestFirst_search(1) [of nums "[]" roll] NumberSet_distinct [OF assms]
  obtain found a where "LowestFirst_choose_numbers nums roll [] = Inr (found, a)"
    "\<not> found \<Longrightarrow> a = []" "found \<Longrightarrow> set a \<subseteq> set nums \<and> distinct a \<and> sum_list a = roll"
    by auto
  then show ?thesis by (cases found) auto
qed

lemma HighestFirst_answer_valid:
  assumes "NumberSet nums"
  shows "\<exists>found a. HighestFirst_choose_numbers nums roll [] = Inr (found, a) \<and>
           (a \<noteq> [] \<longrightarrow> set a \<subseteq> set nums \<and> distinct a \<and> sum_list a = roll)"
proof -
  from HighestFirst_search(1) [of nums "[]" roll] NumberSet_distinct [OF assms]
  obtain found a where "HighestFirst_choose_numbers nums roll [] = Inr (found, a)"
    "\<not> found \<Longrightarrow> a = []" "found \<Longrightarrow> set a \<subseteq> set nums \<and> distinct a \<and> sum_list a = roll"
    by auto
  then show ?thesis by (cases found) auto
qed

lemma ExactThenLowest_answer_valid:
  assumes "NumberSet nums"
  shows "\<exists>a. ExactThenLowest_choose_numbers nums roll [] = Inr a \<and>
           (a \<noteq> [] \<longrightarrow> set a \<subseteq> set nums \<and> distinct a \<and> sum_list a = roll)"
  using LowestFirst_answer_valid [OF assms, of roll]
  by (auto simp: ExactThenLowest_choose_numbers_def)

lemma ExactThenHighest_answer_valid:
  assumes "NumberSet nums"
  shows "\<exists>a. ExactThenHighest_choose_numbers nums roll [] = Inr a \<and>
           (a \<noteq> [] \<longrightarrow> set a \<subseteq> set nums \<and> distinct a \<and> sum_list a = roll)"
  using HighestFirst_answer_valid [OF assms, of roll]
  by (auto simp: ExactThenHighest_choose_numbers_def)

lemma Random_answer_valid:
  assumes "NumberSet nums"
  shows "\<exists>a rng1. Random_choose_numbers nums roll [] rng = Inr (a, rng1) \<and>
           (a \<noteq> [] \<longrightarrow> set a \<subseteq> set nums \<and> distinct a \<and> sum_list a = roll)"
proof (cases "find_all_solutions nums roll = []")
  case True
  then show ?thesis by (simp add: Random_choose_numbers_def)
next
  case False
  let ?sols = "find_all_solutions nums roll"
  let ?a = "?sols ! (rng 0 mod length ?sols)"
  from False have "?a \<in> set ?sols" by simp
  then have "set ?a \<subseteq> set nums \<and> distinct ?a \<and> sum_list ?a = roll"
    by (rule find_all_solutions_valid [OF assms])
  with False show ?thesis
    by (simp add: Random_choose_numbers_def choice_def Let_def)
qed

text \<open>
  The two classes with a \<^verbatim>\<open>secondary_strategy\<close>: an answer they set is a solution found,
  and they return whenever \<^verbatim>\<open>secondary_strategy\<close> returns on the solutions found.
\<close>

lemma FewestNumbers_answer_valid:
  assumes "NumberSet nums" "FewestNumbers_choose_numbers f nums roll [] = Inr a" "a \<noteq> []"
  shows "set a \<subseteq> set nums \<and> distinct a \<and> sum_list a = roll"
proof (cases "find_all_solutions nums roll = []")
  case True
  with assms(2,3) show ?thesis by (simp add: FewestNumbers_choose_numbers_def)
next
  case False
  from extremal_selection_Inr [OF assms(2) [unfolded FewestNumbers_unfold [OF False]]]
  have "a \<in> set (find_all_solutions nums roll)" by blast
  then show ?thesis by (rule find_all_solutions_valid [OF assms(1)])
qed

lemma MostNumbers_answer_valid:
  assumes "NumberSet nums" "MostNumbers_choose_numbers f nums roll [] = Inr a" "a \<noteq> []"
  shows "set a \<subseteq> set nums \<and> distinct a \<and> sum_list a = roll"
proof (cases "find_all_solutions nums roll = []")
  case True
  with assms(2,3) show ?thesis by (simp add: MostNumbers_choose_numbers_def)
next
  case False
  from extremal_selection_Inr [OF assms(2) [unfolded MostNumbers_unfold [OF False]]]
  have "a \<in> set (find_all_solutions nums roll)" by blast
  then show ?thesis by (rule find_all_solutions_valid [OF assms(1)])
qed

lemma FewestNumbers_returns:
  assumes "\<forall>s \<in> set (find_all_solutions nums roll). \<exists>k. f s = Inr k"
  shows "\<exists>a. FewestNumbers_choose_numbers f nums roll ans = Inr a"
proof (cases "find_all_solutions nums roll = []")
  case True
  then show ?thesis by (simp add: FewestNumbers_choose_numbers_def)
next
  case False
  from assms have "\<forall>s \<in> set (find_all_solutions nums roll).
      length s = Min (length ` set (find_all_solutions nums roll)) \<longrightarrow> (\<exists>k. f s = Inr k)"
    by blast
  from extremal_selection_defined [OF Min_length_in [OF False] this]
  show ?thesis unfolding FewestNumbers_unfold [OF False] .
qed

lemma MostNumbers_returns:
  assumes "\<forall>s \<in> set (find_all_solutions nums roll). \<exists>k. f s = Inr k"
  shows "\<exists>a. MostNumbers_choose_numbers f nums roll ans = Inr a"
proof (cases "find_all_solutions nums roll = []")
  case True
  then show ?thesis by (simp add: MostNumbers_choose_numbers_def)
next
  case False
  from assms have "\<forall>s \<in> set (find_all_solutions nums roll).
      length s = Max (length ` set (find_all_solutions nums roll)) \<longrightarrow> (\<exists>k. f s = Inr k)"
    by blast
  from extremal_selection_defined [OF Max_length_in [OF False] this]
  show ?thesis unfolding MostNumbers_unfold [OF False] .
qed

lemma choose_numbers_sound:
  assumes "NumberSet nums" and "answer self = []"
    and "choose_numbers self nums roll rng = Inr (r, self1, rng1)"
  shows "cls self1 = cls self \<and>
         (answer self1 \<noteq> [] \<longrightarrow>
            set (answer self1) \<subseteq> set nums \<and> distinct (answer self1) \<and>
            sum_list (answer self1) = roll)"
proof (cases "cls self")
  case Strategy
  with assms(3) show ?thesis by simp
next
  case LowestFirst
  with LowestFirst_answer_valid [OF assms(1), of roll] assms(2,3) show ?thesis by (auto; blast)
next
  case HighestFirst
  with HighestFirst_answer_valid [OF assms(1), of roll] assms(2,3) show ?thesis by (auto; blast)
next
  case ExactThenLowest
  with ExactThenLowest_answer_valid [OF assms(1), of roll] assms(2,3) show ?thesis by (auto; blast)
next
  case ExactThenHighest
  with ExactThenHighest_answer_valid [OF assms(1), of roll] assms(2,3) show ?thesis by (auto; blast)
next
  case Random
  with Random_answer_valid [OF assms(1), of roll rng] assms(2,3) show ?thesis by (auto; blast)
next
  case (SolutionLength f)
  with assms(3) show ?thesis by simp
next
  case (FewestNumbers f)
  with FewestNumbers_answer_valid [OF assms(1), of f roll] assms(2,3) show ?thesis
    by (auto split: sum.splits; blast)
next
  case (MostNumbers f)
  with MostNumbers_answer_valid [OF assms(1), of f roll] assms(2,3) show ?thesis
    by (auto split: sum.splits; blast)
qed

lemma choose_numbers_returns:
  assumes "NumberSet nums" and "cls self \<noteq> Strategy" and "\<forall>f. cls self \<noteq> SolutionLength f"
    and "answer self = []"
    and "\<forall>f. cls self = FewestNumbers f \<or> cls self = MostNumbers f \<longrightarrow>
           (\<forall>s \<in> set (find_all_solutions nums roll). \<exists>k. f s = Inr k)"
  shows "\<exists>r self1 rng1. choose_numbers self nums roll rng = Inr (r, self1, rng1)"
proof (cases "cls self")
  case Strategy
  with assms(2) show ?thesis by simp
next
  case LowestFirst
  with LowestFirst_answer_valid [OF assms(1), of roll] assms(4) show ?thesis by auto
next
  case HighestFirst
  with HighestFirst_answer_valid [OF assms(1), of roll] assms(4) show ?thesis by auto
next
  case ExactThenLowest
  with ExactThenLowest_answer_valid [OF assms(1), of roll] assms(4) show ?thesis by auto
next
  case ExactThenHighest
  with ExactThenHighest_answer_valid [OF assms(1), of roll] assms(4) show ?thesis by auto
next
  case Random
  with Random_answer_valid [OF assms(1), of roll rng] assms(4) show ?thesis by auto
next
  case (SolutionLength f)
  with assms(3) show ?thesis by simp
next
  case (FewestNumbers f)
  with assms(5) have "\<forall>s \<in> set (find_all_solutions nums roll). \<exists>k. f s = Inr k" by blast
  from FewestNumbers_returns [OF this, of "answer self"] FewestNumbers show ?thesis by auto
next
  case (MostNumbers f)
  with assms(5) have "\<forall>s \<in> set (find_all_solutions nums roll). \<exists>k. f s = Inr k" by blast
  from MostNumbers_returns [OF this, of "answer self"] MostNumbers show ?thesis by auto
qed

text \<open>
  C4 (policy-result invariant). For distinct numbers between 1 and 9, any roll, any source
  of randomness and an object of one of the seven concrete strategy classes (every class
  but the two abstract bases) whose answer is empty before the call: whenever
  \<^verbatim>\<open>choose_numbers\<close> returns, an answer that is not empty afterwards consists of elements
  of the numbers, has no repeated element and sums to the roll. The call does return for
  the five classes without a \<^verbatim>\<open>secondary_strategy\<close>, and for \<^verbatim>\<open>FewestNumbers\<close> and
  \<^verbatim>\<open>MostNumbers\<close> when their \<^verbatim>\<open>secondary_strategy\<close> returns a value on the solutions
  found; otherwise it raises and produces no answer.
\<close>

theorem policy_result_invariant:
  assumes "NumberSet nums" and "cls self \<noteq> Strategy" and "\<forall>f. cls self \<noteq> SolutionLength f"
    and "answer self = []"
  shows "(\<forall>r self1 rng1. choose_numbers self nums roll rng = Inr (r, self1, rng1) \<longrightarrow>
            answer self1 \<noteq> [] \<longrightarrow>
            set (answer self1) \<subseteq> set nums \<and> distinct (answer self1) \<and>
            sum_list (answer self1) = roll) \<and>
         ((\<forall>f. cls self = FewestNumbers f \<or> cls self = MostNumbers f \<longrightarrow>
              (\<forall>s \<in> set (find_all_solutions nums roll). \<exists>k. f s = Inr k)) \<longrightarrow>
          (\<exists>r self1 rng1. choose_numbers self nums roll rng = Inr (r, self1, rng1)))"
  using choose_numbers_sound [OF assms(1,4), of roll rng]
    choose_numbers_returns [OF assms, of roll rng]
  by blast

theorem policy_result_invariant_witness:
  "NumberSet [1, 2, 3, 4, 5] \<and> cls (new_strategy (MostNumbers py_min)) \<noteq> Strategy \<and>
   (\<forall>f. cls (new_strategy (MostNumbers py_min)) \<noteq> SolutionLength f) \<and>
   answer (new_strategy (MostNumbers py_min)) = [] \<and>
   choose_numbers (new_strategy (MostNumbers py_min)) [1, 2, 3, 4, 5] 6 (\<lambda>i. 0) =
     Inr (None, \<lparr>cls = MostNumbers py_min, answer = [1, 2, 3]\<rparr>, \<lambda>i. 0) \<and>
   set [1, 2, 3] \<subseteq> set [1, 2, 3, 4, 5 :: int] \<and> distinct [1, 2, 3 :: int] \<and>
   sum_list [1, 2, 3 :: int] = 6"
proof -
  let ?self = "new_strategy (MostNumbers py_min)"
  have h: "NumberSet [1, 2, 3, 4, 5]" by (simp add: NumberSet_def)
  have c1: "cls ?self \<noteq> Strategy" by (simp add: new_strategy_def)
  have c2: "\<forall>f. cls ?self \<noteq> SolutionLength f" by (simp add: new_strategy_def)
  have c3: "answer ?self = []" by (simp add: new_strategy_def)
  have s: "find_all_solutions [1, 2, 3, 4, 5] 6 = [[1, 2, 3], [1, 5], [2, 4]]"
    by (simp add: eval_simps)
  have e: "choose_numbers ?self [1, 2, 3, 4, 5] 6 (\<lambda>i. 0) =
     Inr (None, \<lparr>cls = MostNumbers py_min, answer = [1, 2, 3]\<rparr>, \<lambda>i. 0)"
    by (simp add: new_strategy_def selection_eval_simps s)
  from policy_result_invariant [OF h c1 c2 c3, of 6 "\<lambda>i. 0"] e
  have "set [1, 2, 3] \<subseteq> set [1, 2, 3, 4, 5 :: int] \<and> distinct [1, 2, 3 :: int] \<and>
        sum_list [1, 2, 3 :: int] = 6"
    by auto
  with h c1 c2 c3 e show ?thesis by blast
qed

section \<open>Properties of the game loop\<close>

text \<open>
  When the module-level name \<^verbatim>\<open>strategy\<close> is bound to the game's own strategy object, as
  in the script, the loop behaves as intended: each turn with an answer removes the
  answer's elements from the numbers, so the numbers get fewer, and the game ends with the
  first empty answer or with no number left. Fuel above the count of the numbers is enough.
  For \<^verbatim>\<open>FewestNumbers\<close> and \<^verbatim>\<open>MostNumbers\<close> this needs a \<^verbatim>\<open>secondary_strategy\<close> that
  returns a value on every solution that is not empty.
\<close>

lemma remove_numbers_ok:
  assumes "distinct nums" "distinct a" "set a \<subseteq> set nums"
  shows "\<exists>nums1. remove_numbers a nums = Inr nums1 \<and> set nums1 = set nums - set a \<and>
           distinct nums1 \<and> length nums1 + length a = length nums"
  using assms
proof (induction a arbitrary: nums)
  case Nil
  then show ?case by simp
next
  case (Cons x a)
  let ?n = "remove1 x nums"
  from Cons.prems have x: "x \<in> set nums" and xa: "x \<notin> set a" by auto
  have n: "distinct ?n" "set ?n = set nums - {x}" using Cons.prems(1) by simp_all
  have l: "Suc (length ?n) = length nums"
    using x by (simp add: length_remove1) (metis Suc_pred length_pos_if_in_set)
  have sub: "set a \<subseteq> set ?n" using Cons.prems xa n(2) by auto
  have da: "distinct a" using Cons.prems(2) by simp
  from Cons.IH [OF n(1) da sub]
  obtain nums1 where r: "remove_numbers a ?n = Inr nums1" "set nums1 = set ?n - set a"
    "distinct nums1" "length nums1 + length a = length ?n"
    by auto
  have "remove_numbers (x # a) nums = Inr nums1"
    using x r(1) by (simp add: list_remove_def)
  moreover have "set nums1 = set nums - set (x # a)" using r(2) n(2) by auto
  moreover have "length nums1 + length (x # a) = length nums" using r(4) l by simp
  ultimately show ?case using r(3) by blast
qed

lemma NumberSet_subset:
  "NumberSet nums \<Longrightarrow> distinct nums1 \<Longrightarrow> set nums1 \<subseteq> set nums \<Longrightarrow> NumberSet nums1"
  by (auto simp: NumberSet_def)

lemma Game_play_while_stop:
  "numbers self = [] \<or> answer (heap (strategy self)) = [] \<Longrightarrow>
   Game_play_while (Suc fuel) global_strategy self heap rng = Some (Inr (self, heap, rng))"
  by auto

text \<open>
  One turn of the loop, when the module-level name is bound to the object \<open>g\<close>: the
  elements of \<open>g\<close>'s answer are removed from the numbers, \<open>g\<close>'s answer is reset, and the
  game's own strategy chooses for a new roll. More fuel never changes a result.
\<close>

lemma Game_play_while_turn:
  assumes "numbers self \<noteq> []" and "answer (heap (strategy self)) \<noteq> []"
    and "remove_numbers (answer (heap g)) (numbers self) = Inr nums"
    and "Game_roll (self\<lparr>numbers := nums\<rparr>) rng = (roll, rng1)"
  shows "Game_play_while (Suc fuel) (Some g) self heap rng =
           (case choose_numbers ((heap(g := (heap g)\<lparr>answer := []\<rparr>)) (strategy self)) nums roll rng1 of
              Inl e \<Rightarrow> Some (Inl e)
            | Inr (res, obj, rng2) \<Rightarrow>
                Game_play_while fuel (Some g) (self\<lparr>numbers := nums\<rparr>)
                  ((heap(g := (heap g)\<lparr>answer := []\<rparr>))(strategy self := obj)) rng2)"
  using assms by (simp add: Let_def del: choose_numbers.simps split: sum.splits)

lemma Game_play_while_more_fuel:
  "Game_play_while fuel global_strategy self heap rng = Some r \<Longrightarrow>
   Game_play_while (Suc fuel) global_strategy self heap rng = Some r"
proof (induction fuel arbitrary: self heap rng)
  case 0
  then show ?case by simp
next
  case (Suc fuel)
  show ?case
  proof (cases "numbers self \<noteq> [] \<and> answer (heap (strategy self)) \<noteq> []")
    case False
    with Suc.prems show ?thesis by auto
  next
    case True
    show ?thesis
    proof (cases global_strategy)
      case None
      with True Suc.prems show ?thesis by simp
    next
      case (Some g)
      show ?thesis
      proof (cases "remove_numbers (answer (heap g)) (numbers self)")
        case (Inl e)
        with True Some Suc.prems show ?thesis by simp
      next
        case (Inr nums)
        obtain roll rng1 where roll: "Game_roll (self\<lparr>numbers := nums\<rparr>) rng = (roll, rng1)"
          by (cases "Game_roll (self\<lparr>numbers := nums\<rparr>) rng")
        note turn = Game_play_while_turn [OF conjunct1 [OF True] conjunct2 [OF True] Inr roll]
        show ?thesis
        proof (cases "choose_numbers ((heap(g := (heap g)\<lparr>answer := []\<rparr>)) (strategy self)) nums roll rng1")
          case (Inl e)
          with Suc.prems show ?thesis
            unfolding Some turn by simp
        next
          case (Inr c)
          obtain res obj rng2 where c: "c = (res, obj, rng2)" by (cases c)
          from Suc.prems have "Game_play_while fuel (Some g) (self\<lparr>numbers := nums\<rparr>)
                  ((heap(g := (heap g)\<lparr>answer := []\<rparr>))(strategy self := obj)) rng2 = Some r"
            unfolding Some turn Inr c by simp
          then have "Game_play_while (Suc fuel) (Some g) (self\<lparr>numbers := nums\<rparr>)
                  ((heap(g := (heap g)\<lparr>answer := []\<rparr>))(strategy self := obj)) rng2 = Some r"
            unfolding Some by (rule Suc.IH [unfolded Some])
          then show ?thesis
            unfolding Some turn Inr c by simp
        qed
      qed
    qed
  qed
qed

lemma Game_play_more_fuel:
  assumes "Game_play fuel global_strategy self heap rng = Some r"
  shows "Game_play (Suc fuel) global_strategy self heap rng = Some r"
proof -
  obtain roll rng1 where roll: "Game_roll self rng = (roll, rng1)"
    by (cases "Game_roll self rng")
  show ?thesis
  proof (cases "choose_numbers (heap (strategy self)) (numbers self) roll rng1")
    case (Inl e)
    with assms roll show ?thesis
      by (simp add: Game_play_def del: choose_numbers.simps)
  next
    case (Inr c)
    obtain res obj rng2 where c: "c = (res, obj, rng2)" by (cases c)
    from assms roll Inr c
    have "Game_play_while fuel global_strategy self (heap(strategy self := obj)) rng2 = Some r"
      by (simp add: Game_play_def del: choose_numbers.simps)
    then have "Game_play_while (Suc fuel) global_strategy self (heap(strategy self := obj)) rng2 = Some r"
      by (rule Game_play_while_more_fuel)
    with roll Inr c show ?thesis
      by (simp add: Game_play_def del: choose_numbers.simps Game_play_while.simps)
  qed
qed

lemma Game_roll_positive: "Game_roll self rng = (r, rng1) \<Longrightarrow> 0 < r"
  by (auto simp: Game_roll_def randint_def Let_def split: if_splits)

text \<open>
  A call of \<^verbatim>\<open>choose_numbers\<close> as the game makes it: on a roll of the dice, with an empty
  answer, and with a \<^verbatim>\<open>secondary_strategy\<close> that returns a value on every solution that
  is not empty, as \<^verbatim>\<open>min\<close> does.
\<close>

lemma choose_numbers_turn:
  assumes "NumberSet nums" and "cls self \<noteq> Strategy" and "\<forall>f. cls self \<noteq> SolutionLength f"
    and "answer self = []" and "0 < roll"
    and "\<forall>f. cls self = FewestNumbers f \<or> cls self = MostNumbers f \<longrightarrow>
           (\<forall>s. s \<noteq> [] \<longrightarrow> (\<exists>k. f s = Inr k))"
  shows "\<exists>r self1 rng1. choose_numbers self nums roll rng = Inr (r, self1, rng1) \<and>
           cls self1 = cls self \<and> set (answer self1) \<subseteq> set nums \<and> distinct (answer self1)"
proof -
  have "\<forall>f. cls self = FewestNumbers f \<or> cls self = MostNumbers f \<longrightarrow>
           (\<forall>s \<in> set (find_all_solutions nums roll). \<exists>k. f s = Inr k)"
    using assms(5,6) solutions_nonempty [OF assms(1), of roll] by (metis less_irrefl)
  from choose_numbers_returns [OF assms(1-4) this, of rng]
  obtain r self1 rng1 where c: "choose_numbers self nums roll rng = Inr (r, self1, rng1)"
    by blast
  from choose_numbers_sound [OF assms(1,4) c]
  have "cls self1 = cls self \<and> set (answer self1) \<subseteq> set nums \<and> distinct (answer self1)"
    by (cases "answer self1 = []") auto
  with c show ?thesis by blast
qed

lemma Game_play_while_halts:
  assumes "NumberSet (numbers self)"
    and "cls (heap (strategy self)) \<noteq> Strategy"
    and "\<forall>f. cls (heap (strategy self)) \<noteq> SolutionLength f"
    and "\<forall>f. cls (heap (strategy self)) = FewestNumbers f \<or>
             cls (heap (strategy self)) = MostNumbers f \<longrightarrow>
           (\<forall>s. s \<noteq> [] \<longrightarrow> (\<exists>k. f s = Inr k))"
    and "set (answer (heap (strategy self))) \<subseteq> set (numbers self)"
    and "distinct (answer (heap (strategy self)))"
    and "length (numbers self) < fuel"
  shows "\<exists>self1 heap1 rng1.
           Game_play_while fuel (Some (strategy self)) self heap rng = Some (Inr (self1, heap1, rng1)) \<and>
           (numbers self1 = [] \<or> answer (heap1 (strategy self1)) = []) \<and>
           set (numbers self1) \<subseteq> set (numbers self) \<and> strategy self1 = strategy self"
  using assms
proof (induction fuel arbitrary: self heap rng)
  case 0
  then show ?case by simp
next
  case (Suc fuel)
  let ?g = "strategy self"
  let ?a = "answer (heap ?g)"
  show ?case
  proof (cases "numbers self \<noteq> [] \<and> ?a \<noteq> []")
    case False
    then have "Game_play_while (Suc fuel) (Some ?g) self heap rng = Some (Inr (self, heap, rng))"
      by auto
    with False show ?thesis by auto
  next
    case True
    note ns = Suc.prems(1)
    from remove_numbers_ok [OF NumberSet_distinct [OF ns] Suc.prems(6,5)]
    obtain nums1 where r: "remove_numbers ?a (numbers self) = Inr nums1"
      "set nums1 = set (numbers self) - set ?a" "distinct nums1"
      "length nums1 + length ?a = length (numbers self)"
      by blast
    let ?self1 = "self\<lparr>numbers := nums1\<rparr>"
    let ?heap1 = "heap(?g := (heap ?g)\<lparr>answer := []\<rparr>)"
    obtain roll rng1 where roll: "Game_roll ?self1 rng = (roll, rng1)"
      by (cases "Game_roll ?self1 rng")
    have ns1: "NumberSet nums1"
      using ns r(3) r(2) by (auto intro: NumberSet_subset)
    have q: "cls (?heap1 ?g) \<noteq> Strategy" "\<forall>f. cls (?heap1 ?g) \<noteq> SolutionLength f"
      "answer (?heap1 ?g) = []"
      using Suc.prems(2,3) by simp_all
    have k: "\<forall>f. cls (?heap1 ?g) = FewestNumbers f \<or> cls (?heap1 ?g) = MostNumbers f \<longrightarrow>
           (\<forall>s. s \<noteq> [] \<longrightarrow> (\<exists>k. f s = Inr k))"
      using Suc.prems(4) by simp
    from choose_numbers_turn [OF ns1 q Game_roll_positive [OF roll] k, of rng1]
    obtain res obj rng2 where c: "choose_numbers (?heap1 ?g) nums1 roll rng1 = Inr (res, obj, rng2)"
      "cls obj = cls (?heap1 ?g)"
      "set (answer obj) \<subseteq> set nums1 \<and> distinct (answer obj)"
      by blast
    let ?heap2 = "?heap1(?g := obj)"
    have step: "Game_play_while (Suc fuel) (Some ?g) self heap rng =
                Game_play_while fuel (Some ?g) ?self1 ?heap2 rng2"
      using True r(1) roll c(1) by (simp del: choose_numbers.simps)
    have len: "length (numbers ?self1) < fuel"
      using r(4) True Suc.prems(7) by (cases ?a) auto
    have p: "NumberSet (numbers ?self1)" "cls (?heap2 (strategy ?self1)) \<noteq> Strategy"
      "\<forall>f. cls (?heap2 (strategy ?self1)) \<noteq> SolutionLength f"
      "\<forall>f. cls (?heap2 (strategy ?self1)) = FewestNumbers f \<or>
             cls (?heap2 (strategy ?self1)) = MostNumbers f \<longrightarrow>
           (\<forall>s. s \<noteq> [] \<longrightarrow> (\<exists>k. f s = Inr k))"
      "set (answer (?heap2 (strategy ?self1))) \<subseteq> set (numbers ?self1)"
      "distinct (answer (?heap2 (strategy ?self1)))"
      using ns1 c(2,3) Suc.prems(2,3,4) by auto
    from Suc.IH [of ?self1 ?heap2 rng2, OF p len]
    obtain self2 heap3 rng3 where
      e: "Game_play_while fuel (Some (strategy ?self1)) ?self1 ?heap2 rng2 = Some (Inr (self2, heap3, rng3))"
      "numbers self2 = [] \<or> answer (heap3 (strategy self2)) = []"
      "set (numbers self2) \<subseteq> set (numbers ?self1)" "strategy self2 = strategy ?self1"
      by blast
    have "set (numbers self2) \<subseteq> set (numbers self)" using e(3) r(2) by auto
    with e step show ?thesis by simp
  qed
qed

lemma Game_play_halts:
  assumes "NumberSet (numbers self)"
    and "cls (heap (strategy self)) \<noteq> Strategy"
    and "\<forall>f. cls (heap (strategy self)) \<noteq> SolutionLength f"
    and "answer (heap (strategy self)) = []"
    and "\<forall>f. cls (heap (strategy self)) = FewestNumbers f \<or>
             cls (heap (strategy self)) = MostNumbers f \<longrightarrow>
           (\<forall>s. s \<noteq> [] \<longrightarrow> (\<exists>k. f s = Inr k))"
    and "length (numbers self) < fuel"
  shows "\<exists>self1 heap1 rng1.
           Game_play fuel (Some (strategy self)) self heap rng = Some (Inr (self1, heap1, rng1)) \<and>
           (numbers self1 = [] \<or> answer (heap1 (strategy self1)) = []) \<and>
           set (numbers self1) \<subseteq> set (numbers self) \<and>
           Game_score self1 = sum_list (numbers self1)"
proof -
  let ?g = "strategy self"
  obtain roll rng1 where roll: "Game_roll self rng = (roll, rng1)"
    by (cases "Game_roll self rng")
  from choose_numbers_turn [OF assms(1-4) Game_roll_positive [OF roll] assms(5), of rng1]
  obtain res obj rng2 where c: "choose_numbers (heap ?g) (numbers self) roll rng1 = Inr (res, obj, rng2)"
    "cls obj = cls (heap ?g)"
    "set (answer obj) \<subseteq> set (numbers self) \<and> distinct (answer obj)"
    by blast
  let ?heap1 = "heap(?g := obj)"
  have p: "cls (?heap1 ?g) \<noteq> Strategy" "\<forall>f. cls (?heap1 ?g) \<noteq> SolutionLength f"
    "\<forall>f. cls (?heap1 ?g) = FewestNumbers f \<or> cls (?heap1 ?g) = MostNumbers f \<longrightarrow>
           (\<forall>s. s \<noteq> [] \<longrightarrow> (\<exists>k. f s = Inr k))"
    "set (answer (?heap1 ?g)) \<subseteq> set (numbers self)" "distinct (answer (?heap1 ?g))"
    using c(2,3) assms(2,3,5) by auto
  from Game_play_while_halts [of self ?heap1 fuel rng2, OF assms(1) p assms(6)]
  obtain self1 heap2 rng3 where
    "Game_play_while fuel (Some ?g) self ?heap1 rng2 = Some (Inr (self1, heap2, rng3))"
    "numbers self1 = [] \<or> answer (heap2 (strategy self1)) = []"
    "set (numbers self1) \<subseteq> set (numbers self)"
    by blast
  then show ?thesis
    using roll c(1) by (simp add: Game_play_def Game_score_def del: choose_numbers.simps)
qed

lemma Game_play_from_start:
  assumes "cls (heap g) \<noteq> Strategy" and "\<forall>f. cls (heap g) \<noteq> SolutionLength f"
    and "answer (heap g) = []"
    and "\<forall>f. cls (heap g) = FewestNumbers f \<or> cls (heap g) = MostNumbers f \<longrightarrow>
           (\<forall>s. s \<noteq> [] \<longrightarrow> (\<exists>k. f s = Inr k))"
  shows "\<exists>self1 heap1 rng1.
           Game_play 10 (Some g) (Game g) heap rng = Some (Inr (self1, heap1, rng1)) \<and>
           (numbers self1 = [] \<or> answer (heap1 (strategy self1)) = []) \<and>
           Game_score self1 = sum_list (numbers self1)"
proof -
  have n: "NumberSet (numbers (Game g))"
    by (simp add: Game_def NumberSet_def upto.simps)
  have l: "length (numbers (Game g)) < 10"
    by (simp add: Game_def upto.simps)
  have s: "strategy (Game g) = g" by (simp add: Game_def)
  from Game_play_halts [of "Game g" heap 10 rng] n l s assms
  show ?thesis by auto
qed

text \<open>
  The script's own configuration: the strategy is \<^verbatim>\<open>MostNumbers(secondary_strategy=min)\<close>
  and the module-level name is bound to it.
\<close>

lemma Game_play_script:
  "\<exists>self1 heap1 rng1.
     Game_play 10 (Some g) (Game g) (heap(g := new_strategy (MostNumbers py_min))) rng
       = Some (Inr (self1, heap1, rng1)) \<and>
     (numbers self1 = [] \<or> answer (heap1 (strategy self1)) = []) \<and>
     Game_score self1 = sum_list (numbers self1)"
  using py_min_defined
  by (intro Game_play_from_start) (auto simp: new_strategy_def)

lemmas game_eval_simps = Game_play_def Game_def Game_roll_def randint_def new_strategy_def
  upto.simps Let_def

text \<open>
  C7 (game loop), at the input where the code departs from it. A game is created with a
  new \<^verbatim>\<open>LowestFirst\<close> strategy while the module-level name \<^verbatim>\<open>strategy\<close> is unbound (the
  module is imported, not run as a script), and both dice show 1. The strategy answers
  \<open>[2]\<close> to the roll 2, the loop is entered, and reading \<^verbatim>\<open>strategy.answer\<close> raises
  \<^verbatim>\<open>NameError\<close>: nothing is removed from the numbers and the game does not continue.
\<close>

theorem Game_play_unbound_global:
  "Game_play (Suc fuel) None (Game 0) (\<lambda>r. new_strategy LowestFirst) (\<lambda>i. 0) = Some (Inl NameError)"
  by (simp add: game_eval_simps eval_simps)

end
